theory Spec2Isabelle
  imports Main
begin

section \<open>Tiles\<close>

text \<open>
  A \<open>Block\<close> object has two fields, written once by the constructor; \<open>update_value\<close>
  is the only method and touches the value alone. Python integers are unbounded, so
  values and coordinates are \<open>int\<close>.
\<close>

record Block =
  bvalue :: int
  position :: "int \<times> int"

definition update_value :: "Block \<Rightarrow> Block" where
  "update_value b = b\<lparr>bvalue := bvalue b * 2\<rparr>"

section \<open>Errors and the random source\<close>

text \<open>
  The two exceptions the program text can raise implicitly: an index out of range
  (also what \<open>random.choice\<close> raises on an empty sequence) and an attribute read on
  \<open>None\<close>.
\<close>

datatype py_error = IndexError | AttributeError

text \<open>
  The process-wide random source is an infinite sequence of draws still to come;
  \<open>random.choice\<close> takes the first draw, reduced to an index into the sequence, and
  leaves the rest. Every element can be chosen, by a suitable first draw.
\<close>

type_synonym random_state = "nat \<Rightarrow> nat"

definition choice :: "'a list \<Rightarrow> random_state \<Rightarrow> py_error + ('a \<times> random_state)" where
  "choice xs r =
     (if xs = [] then Inl IndexError
      else Inr (xs ! (r 0 mod length xs), \<lambda>n. r (Suc n)))"

definition create_block :: "int \<Rightarrow> int \<Rightarrow> random_state \<Rightarrow> py_error + (Block \<times> random_state)" where
  "create_block x y r =
     (case choice [2, 4] r of
        Inl e \<Rightarrow> Inl e
      | Inr (v, r') \<Rightarrow> Inr (\<lparr>bvalue = v, position = (x, y)\<rparr>, r'))"

section \<open>Python lists\<close>

text \<open>
  \<open>xs[i]\<close> and \<open>xs[i] = v\<close>: a negative index counts from the end, an index outside
  \<open>-len .. len - 1\<close> raises. \<open>range_py n\<close> is \<open>range(n)\<close>.
\<close>

definition py_index :: "'a list \<Rightarrow> int \<Rightarrow> py_error + 'a" where
  "py_index xs i =
     (let n = int (length xs); k = (if i < 0 then n + i else i)
      in if 0 \<le> k \<and> k < n then Inr (xs ! nat k) else Inl IndexError)"

definition py_setitem :: "'a list \<Rightarrow> int \<Rightarrow> 'a \<Rightarrow> py_error + 'a list" where
  "py_setitem xs i v =
     (let n = int (length xs); k = (if i < 0 then n + i else i)
      in if 0 \<le> k \<and> k < n then Inr (xs[nat k := v]) else Inl IndexError)"

definition get_cell :: "'a list list \<Rightarrow> int \<Rightarrow> int \<Rightarrow> py_error + 'a" where
  "get_cell xs i j = (case py_index xs i of Inl e \<Rightarrow> Inl e | Inr row \<Rightarrow> py_index row j)"

definition set_cell :: "'a list list \<Rightarrow> int \<Rightarrow> int \<Rightarrow> 'a \<Rightarrow> py_error + 'a list list" where
  "set_cell xs i j v =
     (case py_index xs i of
        Inl e \<Rightarrow> Inl e
      | Inr row \<Rightarrow>
          (case py_setitem row j v of
             Inl e \<Rightarrow> Inl e
           | Inr row' \<Rightarrow> py_setitem xs i row'))"

definition range_py :: "int \<Rightarrow> int list" where
  "range_py n = [0..n - 1]"

text \<open>A list comprehension whose element expression may raise.\<close>

fun collect :: "('a \<Rightarrow> py_error + 'b list) \<Rightarrow> 'a list \<Rightarrow> py_error + 'b list" where
  "collect f [] = Inr []"
| "collect f (x # xs) =
     (case f x of
        Inl e \<Rightarrow> Inl e
      | Inr ys \<Rightarrow> (case collect f xs of Inl e \<Rightarrow> Inl e | Inr zs \<Rightarrow> Inr (ys @ zs)))"

section \<open>The grid\<close>

text \<open>
  A \<open>Grid\<close> object: its size and its list of rows, each slot \<open>None\<close> or a tile. The
  rows are distinct list objects and every tile object sits in one slot only (a tile is
  made by \<open>spawn_new_tile\<close>, stored once, and afterwards only moved), so slots hold
  values here and an in-place update of a tile is an update of its slot.
\<close>

record Grid =
  size_g :: int
  grid :: "Block option list list"

definition empty_positions :: "Grid \<Rightarrow> py_error + (int \<times> int) list" where
  "empty_positions g =
     collect (\<lambda>i. collect (\<lambda>j. case get_cell (grid g) i j of
                                   Inl e \<Rightarrow> Inl e
                                 | Inr c \<Rightarrow> Inr (if c = None then [(i, j)] else []))
                           (range_py (size_g g)))
             (range_py (size_g g))"

definition spawn_new_tile :: "Grid \<Rightarrow> random_state \<Rightarrow> py_error + (Grid \<times> random_state)" where
  "spawn_new_tile g r =
     (case empty_positions g of
        Inl e \<Rightarrow> Inl e
      | Inr ps \<Rightarrow>
          if ps \<noteq> [] then
            (case choice ps r of
               Inl e \<Rightarrow> Inl e
             | Inr ((x, y), r1) \<Rightarrow>
                 (case create_block x y r1 of
                    Inl e \<Rightarrow> Inl e
                  | Inr (b, r2) \<Rightarrow>
                      (case set_cell (grid g) x y (Some b) of
                         Inl e \<Rightarrow> Inl e
                       | Inr cs \<Rightarrow> Inr (g\<lparr>grid := cs\<rparr>, r2))))
          else Inr (g, r))"

definition Grid_init :: "int \<Rightarrow> random_state \<Rightarrow> py_error + (Grid \<times> random_state)" where
  "Grid_init n r =
     (let g = \<lparr>size_g = n, grid = map (\<lambda>_. map (\<lambda>_. None) (range_py n)) (range_py n)\<rparr>
      in case spawn_new_tile g r of
           Inl e \<Rightarrow> Inl e
         | Inr (g1, r1) \<Rightarrow> spawn_new_tile g1 r1)"

definition get_new_position :: "int \<Rightarrow> int \<Rightarrow> string \<Rightarrow> int \<times> int" where
  "get_new_position i j direction =
     (if direction = ''up'' then (i - 1, j)
      else if direction = ''down'' then (i + 1, j)
      else if direction = ''left'' then (i, j - 1)
      else if direction = ''right'' then (i, j + 1)
      else (i, j))"

definition in_bounds :: "Grid \<Rightarrow> int \<times> int \<Rightarrow> bool" where
  "in_bounds g p = (0 \<le> fst p \<and> fst p < size_g g \<and> 0 \<le> snd p \<and> snd p < size_g g)"

text \<open>
  \<open>is_valid_move\<close>: the body of the two loops for one slot, where \<open>Inr True\<close> is the
  \<open>return True\<close> and \<open>Inr False\<close> goes on to the next slot.
\<close>

definition is_valid_move_cell :: "Grid \<Rightarrow> string \<Rightarrow> int \<Rightarrow> int \<Rightarrow> py_error + bool" where
  "is_valid_move_cell g direction i j =
     (case get_cell (grid g) i j of
        Inl e \<Rightarrow> Inl e
      | Inr None \<Rightarrow> Inr False
      | Inr (Some b) \<Rightarrow>
          (let new = get_new_position i j direction
           in if in_bounds g new then
                (case get_cell (grid g) (fst new) (snd new) of
                   Inl e \<Rightarrow> Inl e
                 | Inr None \<Rightarrow> Inr True
                 | Inr (Some nb) \<Rightarrow> Inr (bvalue nb = bvalue b))
              else Inr False))"

fun is_valid_move_inner :: "Grid \<Rightarrow> string \<Rightarrow> int \<Rightarrow> int list \<Rightarrow> py_error + bool" where
  "is_valid_move_inner g direction i [] = Inr False"
| "is_valid_move_inner g direction i (j # js) =
     (case is_valid_move_cell g direction i j of
        Inl e \<Rightarrow> Inl e
      | Inr True \<Rightarrow> Inr True
      | Inr False \<Rightarrow> is_valid_move_inner g direction i js)"

fun is_valid_move_outer :: "Grid \<Rightarrow> string \<Rightarrow> int list \<Rightarrow> py_error + bool" where
  "is_valid_move_outer g direction [] = Inr False"
| "is_valid_move_outer g direction (i # is) =
     (case is_valid_move_inner g direction i (range_py (size_g g)) of
        Inl e \<Rightarrow> Inl e
      | Inr True \<Rightarrow> Inr True
      | Inr False \<Rightarrow> is_valid_move_outer g direction is)"

definition is_valid_move :: "Grid \<Rightarrow> string \<Rightarrow> py_error + bool" where
  "is_valid_move g direction = is_valid_move_outer g direction (range_py (size_g g))"

section \<open>Shift and merge\<close>

text \<open>
  The \<open>while\<close> loop of \<open>shift_and_merge\<close>, on the grid and the walking indices
  \<open>i\<close>, \<open>j\<close>. The next position is computed from the current one before each test of
  the condition, as the source does before the loop and at the end of its body. The
  loop need not end for every grid and direction (an empty slot and a direction that
  leaves the position where it is), so not returning is the value \<open>None\<close>.
\<close>

partial_function (option) shift_and_merge_while ::
  "string \<Rightarrow> Grid \<Rightarrow> int \<Rightarrow> int \<Rightarrow> (py_error + (Grid \<times> int \<times> int)) option" where
  "shift_and_merge_while direction g i j =
     (let new = get_new_position i j direction
      in if in_bounds g new then
           (case get_cell (grid g) (fst new) (snd new) of
              Inl e \<Rightarrow> Some (Inl e)
            | Inr (Some nb) \<Rightarrow> Some (Inr (g, i, j))
            | Inr None \<Rightarrow>
                (case get_cell (grid g) i j of
                   Inl e \<Rightarrow> Some (Inl e)
                 | Inr b \<Rightarrow>
                     (case set_cell (grid g) (fst new) (snd new) b of
                        Inl e \<Rightarrow> Some (Inl e)
                      | Inr cs1 \<Rightarrow>
                          (case set_cell cs1 i j None of
                             Inl e \<Rightarrow> Some (Inl e)
                           | Inr cs2 \<Rightarrow>
                               shift_and_merge_while direction (g\<lparr>grid := cs2\<rparr>)
                                 (fst new) (snd new)))))
         else Some (Inr (g, i, j)))"

declare shift_and_merge_while.simps [code]

text \<open>
  The merge test and the merge, after the loop has stopped at \<open>(i, j)\<close>. The state of
  the two \<open>for\<close> loops is the grid, the \<open>merged\<close> flags and the variable \<open>i\<close>.
\<close>

definition shift_and_merge_merge ::
  "string \<Rightarrow> Grid \<Rightarrow> bool list list \<Rightarrow> int \<Rightarrow> int \<Rightarrow> py_error + (Grid \<times> bool list list \<times> int)" where
  "shift_and_merge_merge direction g merged i j =
     (let new = get_new_position i j direction
      in if in_bounds g new then
           (case get_cell (grid g) (fst new) (snd new) of
              Inl e \<Rightarrow> Inl e
            | Inr None \<Rightarrow> Inr (g, merged, i)
            | Inr (Some nb) \<Rightarrow>
                (case get_cell (grid g) i j of
                   Inl e \<Rightarrow> Inl e
                 | Inr None \<Rightarrow> Inl AttributeError
                 | Inr (Some b) \<Rightarrow>
                     if bvalue nb = bvalue b then
                       (case get_cell merged (fst new) (snd new) of
                          Inl e \<Rightarrow> Inl e
                        | Inr True \<Rightarrow> Inr (g, merged, i)
                        | Inr False \<Rightarrow>
                            (case set_cell (grid g) (fst new) (snd new) (Some (update_value nb)) of
                               Inl e \<Rightarrow> Inl e
                             | Inr cs1 \<Rightarrow>
                                 (case set_cell cs1 i j None of
                                    Inl e \<Rightarrow> Inl e
                                  | Inr cs2 \<Rightarrow>
                                      (case set_cell merged (fst new) (snd new) True of
                                         Inl e \<Rightarrow> Inl e
                                       | Inr merged' \<Rightarrow> Inr (g\<lparr>grid := cs2\<rparr>, merged', i)))))
                     else Inr (g, merged, i)))
         else Inr (g, merged, i))"

text \<open>
  The body of the inner \<open>for\<close> loop for one \<open>j\<close>. The \<open>while\<close> loop assigns to \<open>i\<close>
  and \<open>j\<close>; the next iteration of the inner loop takes a new \<open>j\<close> from the range but
  keeps the \<open>i\<close> the body has left, until the outer loop assigns \<open>i\<close> again.
\<close>

definition shift_and_merge_cell ::
  "string \<Rightarrow> Grid \<times> bool list list \<times> int \<Rightarrow> int \<Rightarrow>
     (py_error + (Grid \<times> bool list list \<times> int)) option" where
  "shift_and_merge_cell direction st j =
     (case st of (g, merged, i) \<Rightarrow>
        (case get_cell (grid g) i j of
           Inl e \<Rightarrow> Some (Inl e)
         | Inr None \<Rightarrow> Some (Inr (g, merged, i))
         | Inr (Some b) \<Rightarrow>
             (case shift_and_merge_while direction g i j of
                None \<Rightarrow> None
              | Some (Inl e) \<Rightarrow> Some (Inl e)
              | Some (Inr (g1, i1, j1)) \<Rightarrow> Some (shift_and_merge_merge direction g1 merged i1 j1))))"

fun shift_and_merge_inner ::
  "string \<Rightarrow> Grid \<times> bool list list \<times> int \<Rightarrow> int list \<Rightarrow>
     (py_error + (Grid \<times> bool list list \<times> int)) option" where
  "shift_and_merge_inner direction st [] = Some (Inr st)"
| "shift_and_merge_inner direction st (j # js) =
     (case shift_and_merge_cell direction st j of
        None \<Rightarrow> None
      | Some (Inl e) \<Rightarrow> Some (Inl e)
      | Some (Inr st') \<Rightarrow> shift_and_merge_inner direction st' js)"

fun shift_and_merge_outer ::
  "string \<Rightarrow> int list \<Rightarrow> Grid \<times> bool list list \<Rightarrow> int list \<Rightarrow>
     (py_error + (Grid \<times> bool list list)) option" where
  "shift_and_merge_outer direction range_order st [] = Some (Inr st)"
| "shift_and_merge_outer direction range_order st (i # is) =
     (case shift_and_merge_inner direction (fst st, snd st, i) range_order of
        None \<Rightarrow> None
      | Some (Inl e) \<Rightarrow> Some (Inl e)
      | Some (Inr (g, merged, i')) \<Rightarrow> shift_and_merge_outer direction range_order (g, merged) is)"

text \<open>Lines 115 to 136: the flags, the iteration order and the two loops.\<close>

definition shift_and_merge_pass :: "Grid \<Rightarrow> string \<Rightarrow> (py_error + Grid) option" where
  "shift_and_merge_pass g direction =
     (let merged = map (\<lambda>_. replicate (nat (size_g g)) False) (range_py (size_g g));
          range_order = (if direction \<in> set [''down'', ''right''] then range_py (size_g g)
                         else rev (range_py (size_g g)))
      in case shift_and_merge_outer direction range_order (g, merged) range_order of
           None \<Rightarrow> None
         | Some (Inl e) \<Rightarrow> Some (Inl e)
         | Some (Inr (g', merged')) \<Rightarrow> Some (Inr g'))"

definition shift_and_merge ::
  "Grid \<Rightarrow> string \<Rightarrow> random_state \<Rightarrow> (py_error + (bool \<times> Grid \<times> random_state)) option" where
  "shift_and_merge g direction r =
     (case is_valid_move g direction of
        Inl e \<Rightarrow> Some (Inl e)
      | Inr False \<Rightarrow> Some (Inr (False, g, r))
      | Inr True \<Rightarrow>
          (case shift_and_merge_pass g direction of
             None \<Rightarrow> None
           | Some (Inl e) \<Rightarrow> Some (Inl e)
           | Some (Inr g1) \<Rightarrow>
               (case spawn_new_tile g1 r of
                  Inl e \<Rightarrow> Some (Inl e)
                | Inr (g2, r') \<Rightarrow> Some (Inr (True, g2, r')))))"

section \<open>The controller\<close>

datatype MoveStrategy = MoveUp | MoveDown | MoveLeft | MoveRight

fun move ::
  "MoveStrategy \<Rightarrow> Grid \<Rightarrow> random_state \<Rightarrow> (py_error + (bool \<times> Grid \<times> random_state)) option" where
  "move MoveUp g r = shift_and_merge g ''up'' r"
| "move MoveDown g r = shift_and_merge g ''down'' r"
| "move MoveLeft g r = shift_and_merge g ''left'' r"
| "move MoveRight g r = shift_and_merge g ''right'' r"

text \<open>What the program prints: a line of text, or a row of the grid as a list of integers.\<close>

datatype printed = Print string | PrintRow "int list"

definition print_grid :: "Grid \<Rightarrow> printed list" where
  "print_grid g =
     map (\<lambda>row. PrintRow (map (\<lambda>block. case block of Some b \<Rightarrow> bvalue b | None \<Rightarrow> 0) row)) (grid g)
     @ [Print [CHR 0x0A]]"

record GameController =
  controller_grid :: Grid
  moves :: "string \<Rightarrow> MoveStrategy option"

definition GameController_init :: "random_state \<Rightarrow> py_error + (GameController \<times> random_state)" where
  "GameController_init r =
     (case Grid_init 4 r of
        Inl e \<Rightarrow> Inl e
      | Inr (g, r') \<Rightarrow>
          Inr (\<lparr>controller_grid = g,
                moves = [''up'' \<mapsto> MoveUp, ''down'' \<mapsto> MoveDown,
                         ''left'' \<mapsto> MoveLeft, ''right'' \<mapsto> MoveRight]\<rparr>, r'))"

definition play_move ::
  "GameController \<Rightarrow> string \<Rightarrow> random_state \<Rightarrow>
     (py_error + (printed list \<times> GameController \<times> random_state)) option" where
  "play_move c direction r =
     (case moves c direction of
        None \<Rightarrow> Some (Inr ([Print ''Invalid move''], c, r))
      | Some strategy \<Rightarrow>
          (case move strategy (controller_grid c) r of
             None \<Rightarrow> None
           | Some (Inl e) \<Rightarrow> Some (Inl e)
           | Some (Inr (True, g', r')) \<Rightarrow>
               Some (Inr (print_grid g', c\<lparr>controller_grid := g'\<rparr>, r'))
           | Some (Inr (False, g', r')) \<Rightarrow>
               Some (Inr ([Print ''Move not possible!''], c\<lparr>controller_grid := g'\<rparr>, r'))))"

section \<open>Notions the properties are stated with\<close>

text \<open>
  A grid is well formed when it has \<open>size\<close> rows of \<open>size\<close> slots, which is what the
  constructor builds and every operation keeps. The other notions read a grid: the
  values in its slots, the tiles on it in row-major order, their total, the numbers of
  occupied and of empty slots, and whether every tile's stored position is its slot.
\<close>

definition wf_cells :: "nat \<Rightarrow> 'a list list \<Rightarrow> bool" where
  "wf_cells n xs = (length xs = n \<and> list_all (\<lambda>row. length row = n) xs)"

definition wf_grid :: "Grid \<Rightarrow> bool" where
  "wf_grid g = wf_cells (nat (size_g g)) (grid g)"

definition tile_values :: "Grid \<Rightarrow> int option list list" where
  "tile_values g = map (map (map_option bvalue)) (grid g)"

definition tiles :: "Grid \<Rightarrow> Block list" where
  "tiles g = concat (map (\<lambda>c. case c of None \<Rightarrow> [] | Some b \<Rightarrow> [b]) (concat (grid g)))"

definition total_value :: "Grid \<Rightarrow> int" where
  "total_value g = sum_list (map bvalue (tiles g))"

definition occupied_slots :: "Grid \<Rightarrow> nat" where
  "occupied_slots g = length (filter (\<lambda>c. c \<noteq> None) (concat (grid g)))"

definition empty_slots :: "Grid \<Rightarrow> nat" where
  "empty_slots g = length (filter (\<lambda>c. c = None) (concat (grid g)))"

definition row_consistent :: "int \<Rightarrow> Block option list \<Rightarrow> bool" where
  "row_consistent i row =
     list_all (\<lambda>(j, c). case c of None \<Rightarrow> True | Some b \<Rightarrow> position b = (i, int j))
       (zip [0..<length row] row)"

definition positions_consistent :: "Grid \<Rightarrow> bool" where
  "positions_consistent g =
     list_all (\<lambda>(i, row). row_consistent (int i) row) (zip [0..<length (grid g)] (grid g))"

definition known_direction :: "string \<Rightarrow> bool" where
  "known_direction direction = (direction \<in> set [''up'', ''down'', ''left'', ''right''])"

text \<open>
  Helpers of the proofs: the empty positions of a well-formed grid, a grid with one slot
  overwritten, a sum over all slots, and the relation between a grid and the same grid
  after \<open>spawn_new_tile\<close> has filled one empty slot with a new tile of value 2 or 4
  whose position is that slot.
\<close>

definition empty_list :: "Grid \<Rightarrow> (int \<times> int) list" where
  "empty_list g =
     concat (map (\<lambda>i. concat (map (\<lambda>j. if grid g ! nat i ! nat j = None then [(i, j)] else [])
                                     (range_py (size_g g))))
                 (range_py (size_g g)))"

definition with_cell :: "Grid \<Rightarrow> int \<Rightarrow> int \<Rightarrow> Block option \<Rightarrow> Grid" where
  "with_cell g i j v = g\<lparr>grid := (grid g)[nat i := (grid g ! nat i)[nat j := v]]\<rparr>"

definition cell_sum :: "(Block option \<Rightarrow> int) \<Rightarrow> Grid \<Rightarrow> int" where
  "cell_sum f g = sum_list (map f (concat (grid g)))"

definition one_tile_spawned :: "Grid \<Rightarrow> Grid \<Rightarrow> bool" where
  "one_tile_spawned g g' =
     (\<exists>x y v cs. in_bounds g (x, y) \<and> get_cell (grid g) x y = Inr None \<and> (v = 2 \<or> v = 4)
        \<and> set_cell (grid g) x y (Some \<lparr>bvalue = v, position = (x, y)\<rparr>) = Inr cs
        \<and> g' = g\<lparr>grid := cs\<rparr>)"

text \<open>
  What the two loops keep in a known direction, and the number of steps a tile at
  \<open>(i, j)\<close> can still slide, which bounds the \<open>while\<close> loop.
\<close>

definition keeps :: "Grid \<Rightarrow> Grid \<Rightarrow> bool" where
  "keeps g g' =
     (wf_grid g' \<and> size_g g' = size_g g \<and> total_value g' = total_value g
      \<and> position ` set (tiles g') \<subseteq> position ` set (tiles g))"

definition steps_left :: "string \<Rightarrow> Grid \<Rightarrow> int \<Rightarrow> int \<Rightarrow> nat" where
  "steps_left direction g i j =
     (if direction = ''up'' then nat i
      else if direction = ''down'' then nat (size_g g - i)
      else if direction = ''left'' then nat j
      else nat (size_g g - j))"

text \<open>
  For a direction that is none of the four: the \<open>merged\<close> flags are set at empty slots
  only, and a grid is another one with the slots of a set of positions emptied.
\<close>

definition flags_ok :: "Grid \<Rightarrow> bool list list \<Rightarrow> bool" where
  "flags_ok g merged =
     (wf_cells (nat (size_g g)) merged
      \<and> (\<forall>a b. in_bounds g (a, b) \<longrightarrow> merged ! nat a ! nat b \<longrightarrow> grid g ! nat a ! nat b = None))"

definition cleared :: "Grid \<Rightarrow> (int \<times> int) set \<Rightarrow> Grid \<Rightarrow> bool" where
  "cleared g S g' =
     (wf_grid g' \<and> size_g g' = size_g g
      \<and> (\<forall>a b. in_bounds g (a, b) \<longrightarrow>
            grid g' ! nat a ! nat b = (if (a, b) \<in> S then None else grid g ! nat a ! nat b)))"

section \<open>Python lists on a well-formed grid\<close>

lemmas eval_defs = range_py_def upto.simps get_cell_def set_cell_def py_index_def py_setitem_def
  get_new_position_def in_bounds_def is_valid_move_def is_valid_move_cell_def

lemma py_index_nat: "0 \<le> i \<Longrightarrow> nat i < length xs \<Longrightarrow> py_index xs i = Inr (xs ! nat i)"
  by (simp add: py_index_def Let_def)

lemma py_setitem_nat: "0 \<le> i \<Longrightarrow> nat i < length xs \<Longrightarrow> py_setitem xs i v = Inr (xs[nat i := v])"
  by (simp add: py_setitem_def Let_def)

lemma wf_cells_row: "wf_cells n xs \<Longrightarrow> k < n \<Longrightarrow> length (xs ! k) = n"
  by (simp add: wf_cells_def list_all_length)

lemma get_cell_wf:
  "wf_cells n xs \<Longrightarrow> 0 \<le> i \<Longrightarrow> i < int n \<Longrightarrow> 0 \<le> j \<Longrightarrow> j < int n \<Longrightarrow>
   get_cell xs i j = Inr (xs ! nat i ! nat j)"
proof -
  assume wf: "wf_cells n xs" and b: "0 \<le> i" "i < int n" "0 \<le> j" "j < int n"
  have l: "length xs = n" using wf by (simp add: wf_cells_def)
  have r: "length (xs ! nat i) = n" using wf b by (simp add: wf_cells_row)
  show ?thesis using b l r by (simp add: get_cell_def py_index_nat)
qed

lemma set_cell_wf:
  "wf_cells n xs \<Longrightarrow> 0 \<le> i \<Longrightarrow> i < int n \<Longrightarrow> 0 \<le> j \<Longrightarrow> j < int n \<Longrightarrow>
   set_cell xs i j v = Inr (xs[nat i := (xs ! nat i)[nat j := v]])"
  by (simp add: set_cell_def wf_cells_def py_index_nat py_setitem_nat list_all_length)

lemma wf_cells_update:
  "wf_cells n xs \<Longrightarrow> wf_cells n (xs[a := (xs ! a)[b := v]])"
  by (cases "a < length xs") (auto simp: wf_cells_def list_all_length nth_list_update)

lemma collect_Inr:
  "(\<And>x. x \<in> set xs \<Longrightarrow> f x = Inr (h x)) \<Longrightarrow> collect f xs = Inr (concat (map h xs))"
  by (induction xs) auto

text \<open>A grid of size 4 given by the values in its slots, with only row 0 occupied.\<close>

lemma tile_values_grid4:
  assumes "tile_values g = [[a0, a1, a2, a3], [None, None, None, None],
                            [None, None, None, None], [None, None, None, None]]"
  shows "\<exists>w x y z. grid g = [[w, x, y, z], [None, None, None, None],
                               [None, None, None, None], [None, None, None, None]]
     \<and> map_option bvalue w = a0 \<and> map_option bvalue x = a1
     \<and> map_option bvalue y = a2 \<and> map_option bvalue z = a3"
  using assms unfolding tile_values_def
  by (auto simp: map_eq_Cons_conv)

section \<open>Slots of a well-formed grid\<close>

lemma set_range_py: "set (range_py n) = {i. 0 \<le> i \<and> i < n}"
  by (auto simp: range_py_def)

lemma wf_grid_get_cell:
  "wf_grid g \<Longrightarrow> in_bounds g (i, j) \<Longrightarrow> get_cell (grid g) i j = Inr (grid g ! nat i ! nat j)"
  unfolding wf_grid_def in_bounds_def by (rule get_cell_wf) auto

lemma wf_grid_set_cell:
  "wf_grid g \<Longrightarrow> in_bounds g (i, j) \<Longrightarrow>
   set_cell (grid g) i j v = Inr ((grid g)[nat i := (grid g ! nat i)[nat j := v]])"
  unfolding wf_grid_def in_bounds_def by (rule set_cell_wf) auto

lemma empty_positions_wf:
  assumes "wf_grid g"
  shows "empty_positions g = Inr (empty_list g)"
  unfolding empty_positions_def empty_list_def
proof (rule collect_Inr)
  fix i assume i: "i \<in> set (range_py (size_g g))"
  show "collect (\<lambda>j. case get_cell (grid g) i j of Inl e \<Rightarrow> Inl e
                     | Inr c \<Rightarrow> Inr (if c = None then [(i, j)] else []))
          (range_py (size_g g))
        = Inr (concat (map (\<lambda>j. if grid g ! nat i ! nat j = None then [(i, j)] else [])
                 (range_py (size_g g))))"
  proof (rule collect_Inr)
    fix j assume j: "j \<in> set (range_py (size_g g))"
    have "in_bounds g (i, j)" using i j by (simp add: set_range_py in_bounds_def)
    then show "(case get_cell (grid g) i j of Inl e \<Rightarrow> Inl e
                | Inr c \<Rightarrow> Inr (if c = None then [(i, j)] else []))
               = Inr (if grid g ! nat i ! nat j = None then [(i, j)] else [])"
      using assms by (simp add: wf_grid_get_cell)
  qed
qed

lemma set_empty_list:
  "set (empty_list g) = {p. in_bounds g p \<and> grid g ! nat (fst p) ! nat (snd p) = None}"
  by (auto simp: empty_list_def set_range_py in_bounds_def split: if_splits)

lemma wf_grid_cell_mem:
  "wf_grid g \<Longrightarrow> in_bounds g (i, j) \<Longrightarrow> grid g ! nat i ! nat j \<in> set (concat (grid g))"
proof -
  assume wf: "wf_grid g" and b: "in_bounds g (i, j)"
  have l: "nat i < length (grid g)" using wf b by (auto simp: wf_grid_def wf_cells_def in_bounds_def)
  have "length (grid g ! nat i) = nat (size_g g)"
    using wf l by (simp add: wf_grid_def wf_cells_def list_all_length)
  then have "nat j < length (grid g ! nat i)" using b by (auto simp: in_bounds_def)
  then show ?thesis using l by (auto intro!: bexI [of _ "grid g ! nat i"])
qed

lemma wf_grid_mem_cell:
  assumes "wf_grid g" "c \<in> set (concat (grid g))"
  shows "\<exists>i j. in_bounds g (i, j) \<and> grid g ! nat i ! nat j = c"
proof -
  from assms(2) obtain row where row: "row \<in> set (grid g)" "c \<in> set row" by auto
  then obtain a where a: "a < length (grid g)" "grid g ! a = row" by (auto simp: in_set_conv_nth)
  from row obtain b where b: "b < length row" "row ! b = c" by (auto simp: in_set_conv_nth)
  have "length row = nat (size_g g)" "length (grid g) = nat (size_g g)"
    using assms(1) row by (auto simp: wf_grid_def wf_cells_def list_all_iff)
  then have "in_bounds g (int a, int b)" using a b by (auto simp: in_bounds_def)
  then show ?thesis using a b by (intro exI [of _ "int a"] exI [of _ "int b"]) simp
qed

lemma spawn_new_tile_full:
  assumes "wf_grid g" "\<forall>c \<in> set (concat (grid g)). c \<noteq> None"
  shows "spawn_new_tile g r = Inr (g, r)"
proof -
  have "p \<notin> set (empty_list g)" for p
  proof
    assume "p \<in> set (empty_list g)"
    then have b: "in_bounds g (fst p, snd p)" and n: "grid g ! nat (fst p) ! nat (snd p) = None"
      by (simp_all add: set_empty_list)
    from wf_grid_cell_mem [OF assms(1) b] assms(2) n show False by auto
  qed
  then have "empty_list g = []" by (cases "empty_list g") auto
  then show ?thesis using assms(1) by (simp add: spawn_new_tile_def empty_positions_wf)
qed

lemma spawn_new_tile_empty:
  assumes "wf_grid g" "None \<in> set (concat (grid g))"
  shows "\<exists>x y v. in_bounds g (x, y) \<and> grid g ! nat x ! nat y = None \<and> (v = 2 \<or> v = 4)
     \<and> spawn_new_tile g r
       = Inr (g\<lparr>grid := (grid g)[nat x := (grid g ! nat x)[nat y := Some \<lparr>bvalue = v, position = (x, y)\<rparr>]]\<rparr>,
              \<lambda>n. r (Suc (Suc n)))"
proof -
  obtain i j where ij: "in_bounds g (i, j)" "grid g ! nat i ! nat j = None"
    using wf_grid_mem_cell [OF assms] by blast
  then have ne: "empty_list g \<noteq> []" using set_empty_list [of g] by force
  define p where "p = empty_list g ! (r 0 mod length (empty_list g))"
  have "p \<in> set (empty_list g)" unfolding p_def using ne by simp
  then have p: "in_bounds g (fst p, snd p)" "grid g ! nat (fst p) ! nat (snd p) = None"
    by (simp_all add: set_empty_list)
  define v :: int where "v = [2, 4] ! (r (Suc 0) mod Suc (Suc 0))"
  have "r (Suc 0) mod Suc (Suc 0) = 0 \<or> r (Suc 0) mod Suc (Suc 0) = Suc 0" by arith
  then have v: "v = 2 \<or> v = 4" unfolding v_def by auto
  have "spawn_new_tile g r
       = Inr (g\<lparr>grid := (grid g)[nat (fst p) := (grid g ! nat (fst p))[nat (snd p) := Some \<lparr>bvalue = v, position = (fst p, snd p)\<rparr>]]\<rparr>,
              \<lambda>n. r (Suc (Suc n)))"
    using ne assms(1) p(1)
    by (simp add: spawn_new_tile_def empty_positions_wf choice_def create_block_def
        wf_grid_set_cell p_def [symmetric] v_def [symmetric] split_beta)
  then show ?thesis using p v by blast
qed

lemma sum_list_map_update:
  fixes f :: "'a \<Rightarrow> int"
  shows "b < length ys \<Longrightarrow> sum_list (map f (ys[b := v])) = sum_list (map f ys) - f (ys ! b) + f v"
  by (induction ys arbitrary: b) (auto simp: nth_Cons' split: nat.splits)

lemma sum_list_map_concat:
  fixes f :: "'a \<Rightarrow> int"
  shows "sum_list (map f (concat xs)) = sum_list (map (\<lambda>row. sum_list (map f row)) xs)"
  by (induction xs) auto

lemma cell_sum_with_cell:
  assumes "wf_grid g" "in_bounds g (i, j)"
  shows "cell_sum f (with_cell g i j v) = cell_sum f g - f (grid g ! nat i ! nat j) + f v"
proof -
  have l: "nat i < length (grid g)"
    using assms by (auto simp: wf_grid_def wf_cells_def in_bounds_def)
  have "length (grid g ! nat i) = nat (size_g g)"
    using assms(1) l by (simp add: wf_grid_def wf_cells_def list_all_length)
  then have r: "nat j < length (grid g ! nat i)" using assms(2) by (auto simp: in_bounds_def)
  show ?thesis
    unfolding cell_sum_def with_cell_def
    by (simp add: sum_list_map_concat sum_list_map_update [OF l] sum_list_map_update [OF r])
qed

lemma wf_grid_with_cell: "wf_grid g \<Longrightarrow> wf_grid (with_cell g i j v)"
  by (simp add: wf_grid_def with_cell_def wf_cells_update)

lemma size_g_with_cell: "size_g (with_cell g i j v) = size_g g"
  by (simp add: with_cell_def)

lemma in_bounds_with_cell: "in_bounds (with_cell g i j v) p = in_bounds g p"
  by (simp add: in_bounds_def with_cell_def)

lemma nth_with_cell:
  assumes "wf_grid g" "in_bounds g (i, j)" "in_bounds g (a, b)"
  shows "grid (with_cell g i j v) ! nat a ! nat b = (if a = i \<and> b = j then v else grid g ! nat a ! nat b)"
proof -
  have l: "nat i < length (grid g)" "nat a < length (grid g)"
    using assms by (auto simp: wf_grid_def wf_cells_def in_bounds_def)
  have "length (grid g ! nat i) = nat (size_g g)"
    using assms(1) l by (simp add: wf_grid_def wf_cells_def list_all_length)
  then have r: "nat j < length (grid g ! nat i)" using assms(2) by (auto simp: in_bounds_def)
  have e: "nat a = nat i \<longleftrightarrow> a = i" "nat b = nat j \<longleftrightarrow> b = j"
    using assms(2,3) by (auto simp: in_bounds_def)
  show ?thesis using l r e by (auto simp: with_cell_def nth_list_update)
qed

lemma total_value_cell_sum:
  "total_value g = cell_sum (\<lambda>c. case c of None \<Rightarrow> 0 | Some b \<Rightarrow> bvalue b) g"
proof -
  have "sum_list (map bvalue (concat (map (\<lambda>c. case c of None \<Rightarrow> [] | Some b \<Rightarrow> [b]) cs)))
        = sum_list (map (\<lambda>c. case c of None \<Rightarrow> 0 | Some b \<Rightarrow> bvalue b) cs)" for cs
    by (induction cs) (auto split: option.splits)
  then show ?thesis by (simp add: total_value_def tiles_def cell_sum_def)
qed

lemma length_filter_sum:
  "int (length (filter P xs)) = sum_list (map (\<lambda>x. if P x then 1 else 0) xs)"
  by (induction xs) auto

lemma occupied_slots_cell_sum:
  "int (occupied_slots g) = cell_sum (\<lambda>c. if c \<noteq> None then 1 else 0) g"
  by (simp add: occupied_slots_def cell_sum_def length_filter_sum)

lemma empty_slots_cell_sum:
  "int (empty_slots g) = cell_sum (\<lambda>c. if c = None then 1 else 0) g"
  by (simp add: empty_slots_def cell_sum_def length_filter_sum)

lemma set_tiles: "set (tiles g) = {b. Some b \<in> set (concat (grid g))}"
  by (auto simp: tiles_def split: option.splits)

lemma set_concat_with_cell:
  "set (concat (grid (with_cell g i j v))) \<subseteq> insert v (set (concat (grid g)))"
proof
  fix c assume "c \<in> set (concat (grid (with_cell g i j v)))"
  then obtain row where row: "row \<in> set ((grid g)[nat i := (grid g ! nat i)[nat j := v]])" "c \<in> set row"
    by (auto simp: with_cell_def)
  from row(1) have "row \<in> insert ((grid g ! nat i)[nat j := v]) (set (grid g))"
    using set_update_subset_insert by fast
  then show "c \<in> insert v (set (concat (grid g)))"
  proof
    assume "row = (grid g ! nat i)[nat j := v]"
    then have c: "c \<in> insert v (set (grid g ! nat i))" using row(2) set_update_subset_insert by fast
    show ?thesis
    proof (cases "nat i < length (grid g)")
      case True then show ?thesis using c by auto
    next
      case False
      then have "(grid g)[nat i := (grid g ! nat i)[nat j := v]] = grid g"
        by (simp add: list_update_beyond)
      then show ?thesis using row by auto
    qed
  next
    assume "row \<in> set (grid g)" then show ?thesis using row(2) by auto
  qed
qed

lemma length_concat_wf: "wf_cells n xs \<Longrightarrow> length (concat xs) = n * n"
proof -
  assume wf: "wf_cells n xs"
  then have "map length xs = replicate n n"
    by (auto simp: wf_cells_def list_all_length intro!: nth_equalityI)
  then show ?thesis by (simp add: length_concat sum_list_replicate)
qed

section \<open>Spawning\<close>

lemma one_tile_spawned_with_cell:
  assumes "wf_grid g" "one_tile_spawned g g'"
  shows "\<exists>x y v. in_bounds g (x, y) \<and> grid g ! nat x ! nat y = None \<and> (v = 2 \<or> v = 4)
           \<and> g' = with_cell g x y (Some \<lparr>bvalue = v, position = (x, y)\<rparr>)"
proof -
  from assms(2) obtain x y v cs where h: "in_bounds g (x, y)" "get_cell (grid g) x y = Inr None"
    "v = 2 \<or> v = 4" "set_cell (grid g) x y (Some \<lparr>bvalue = v, position = (x, y)\<rparr>) = Inr cs"
    "g' = g\<lparr>grid := cs\<rparr>"
    unfolding one_tile_spawned_def by blast
  from h(1,2) assms(1) have "grid g ! nat x ! nat y = None" by (simp add: wf_grid_get_cell)
  moreover from h(1,4,5) assms(1) have "g' = with_cell g x y (Some \<lparr>bvalue = v, position = (x, y)\<rparr>)"
    by (simp add: wf_grid_set_cell with_cell_def)
  ultimately show ?thesis using h(1,3) by blast
qed

lemma spawn_new_tile_spawns:
  assumes "wf_grid g" "None \<in> set (concat (grid g))"
  shows "\<exists>g'. spawn_new_tile g r = Inr (g', \<lambda>n. r (Suc (Suc n))) \<and> one_tile_spawned g g'"
proof -
  from spawn_new_tile_empty [OF assms, of r] obtain x y v where
    h: "in_bounds g (x, y)" "grid g ! nat x ! nat y = None" "v = 2 \<or> v = 4"
    "spawn_new_tile g r
       = Inr (g\<lparr>grid := (grid g)[nat x := (grid g ! nat x)[nat y := Some \<lparr>bvalue = v, position = (x, y)\<rparr>]]\<rparr>,
              \<lambda>n. r (Suc (Suc n)))"
    by blast
  have "one_tile_spawned g (g\<lparr>grid := (grid g)[nat x := (grid g ! nat x)[nat y := Some \<lparr>bvalue = v, position = (x, y)\<rparr>]]\<rparr>)"
    unfolding one_tile_spawned_def using h(1,2,3) assms(1)
    by (intro exI [of _ x] exI [of _ y] exI [of _ v]) (simp add: wf_grid_get_cell wf_grid_set_cell)
  then show ?thesis using h(4) by blast
qed

lemma one_tile_spawned_effect:
  assumes "wf_grid g" "one_tile_spawned g g'"
  shows "wf_grid g'" "size_g g' = size_g g"
    "occupied_slots g' = Suc (occupied_slots g)" "Suc (empty_slots g') = empty_slots g"
    "\<exists>v. (v = 2 \<or> v = 4) \<and> total_value g' = total_value g + v"
    "\<exists>b. (bvalue b = 2 \<or> bvalue b = 4) \<and> set (tiles g') \<subseteq> insert b (set (tiles g))"
proof -
  from one_tile_spawned_with_cell [OF assms] obtain x y v where
    h: "in_bounds g (x, y)" "grid g ! nat x ! nat y = None" "v = 2 \<or> v = 4"
    "g' = with_cell g x y (Some \<lparr>bvalue = v, position = (x, y)\<rparr>)" by blast
  show "wf_grid g'" using assms(1) h(4) by (simp add: wf_grid_with_cell)
  show "size_g g' = size_g g" using h(4) by (simp add: size_g_with_cell)
  have "int (occupied_slots g') = int (occupied_slots g) + 1"
    using h by (simp add: occupied_slots_cell_sum cell_sum_with_cell [OF assms(1) h(1)])
  then show "occupied_slots g' = Suc (occupied_slots g)" by simp
  have "int (empty_slots g') = int (empty_slots g) - 1"
    using h by (simp add: empty_slots_cell_sum cell_sum_with_cell [OF assms(1) h(1)])
  then show "Suc (empty_slots g') = empty_slots g" by simp
  have "total_value g' = total_value g + v"
    using h by (simp add: total_value_cell_sum cell_sum_with_cell [OF assms(1) h(1)])
  then show "\<exists>v. (v = 2 \<or> v = 4) \<and> total_value g' = total_value g + v" using h(3) by blast
  have "set (tiles g') \<subseteq> insert \<lparr>bvalue = v, position = (x, y)\<rparr> (set (tiles g))"
    using set_concat_with_cell [of g x y "Some \<lparr>bvalue = v, position = (x, y)\<rparr>"] h(4)
    by (auto simp: set_tiles)
  then show "\<exists>b. (bvalue b = 2 \<or> bvalue b = 4) \<and> set (tiles g') \<subseteq> insert b (set (tiles g))"
    using h(3) by (intro exI [of _ "\<lparr>bvalue = v, position = (x, y)\<rparr>"]) simp
qed

lemma empty_slots_pos: "0 < empty_slots g \<Longrightarrow> None \<in> set (concat (grid g))"
  by (auto simp: empty_slots_def filter_empty_conv)

lemma length_range_py: "length (range_py n) = nat n"
  by (simp add: range_py_def)

section \<open>The validity gate\<close>

text \<open>
  C3. A locked move changes nothing: whenever \<open>is_valid_move\<close> is false for a direction,
  \<open>shift_and_merge\<close> in that direction returns false and hands back the same grid and
  the same random source, so no slot is written and no tile is spawned. In particular a
  grid of size 4 whose only tiles are 2, 4, 8, 16 in row 0 is locked to the left and to
  the right.
\<close>

theorem locked_move_is_atomic:
  "(is_valid_move g direction = Inr False \<longrightarrow>
      shift_and_merge g direction r = Some (Inr (False, g, r)))
   \<and> (size_g g = 4 \<and> tile_values g = [[Some 2, Some 4, Some 8, Some 16], [None, None, None, None],
                                        [None, None, None, None], [None, None, None, None]] \<longrightarrow>
      is_valid_move g ''left'' = Inr False \<and> is_valid_move g ''right'' = Inr False
      \<and> shift_and_merge g ''left'' r = Some (Inr (False, g, r))
      \<and> shift_and_merge g ''right'' r = Some (Inr (False, g, r)))"
proof -
  have gate: "shift_and_merge h d r = Some (Inr (False, h, r))"
    if "is_valid_move h d = Inr False" for h d
    using that by (simp add: shift_and_merge_def)
  have locked: "is_valid_move g ''left'' = Inr False \<and> is_valid_move g ''right'' = Inr False"
    if s: "size_g g = 4"
      and t: "tile_values g = [[Some 2, Some 4, Some 8, Some 16], [None, None, None, None],
                               [None, None, None, None], [None, None, None, None]]"
  proof -
    obtain w x y z where
      "grid g = [[w, x, y, z], [None, None, None, None],
                 [None, None, None, None], [None, None, None, None]]"
      "map_option bvalue w = Some 2" "map_option bvalue x = Some 4"
      "map_option bvalue y = Some 8" "map_option bvalue z = Some 16"
      using tile_values_grid4 [OF t] by blast
    then show ?thesis using s by (auto simp: eval_defs)
  qed
  show ?thesis using gate locked by blast
qed

theorem locked_move_is_atomic_witness:
  "is_valid_move
     \<lparr>size_g = 4,
      grid = [[Some \<lparr>bvalue = 2, position = (0, 0)\<rparr>, Some \<lparr>bvalue = 4, position = (0, 1)\<rparr>,
               Some \<lparr>bvalue = 8, position = (0, 2)\<rparr>, Some \<lparr>bvalue = 16, position = (0, 3)\<rparr>],
              [None, None, None, None], [None, None, None, None],
              [None, None, None, None]]\<rparr> ''right'' = Inr False
   \<and> shift_and_merge
     \<lparr>size_g = 4,
      grid = [[Some \<lparr>bvalue = 2, position = (0, 0)\<rparr>, Some \<lparr>bvalue = 4, position = (0, 1)\<rparr>,
               Some \<lparr>bvalue = 8, position = (0, 2)\<rparr>, Some \<lparr>bvalue = 16, position = (0, 3)\<rparr>],
              [None, None, None, None], [None, None, None, None],
              [None, None, None, None]]\<rparr> ''right'' (\<lambda>_. 0)
     = Some (Inr (False,
     \<lparr>size_g = 4,
      grid = [[Some \<lparr>bvalue = 2, position = (0, 0)\<rparr>, Some \<lparr>bvalue = 4, position = (0, 1)\<rparr>,
               Some \<lparr>bvalue = 8, position = (0, 2)\<rparr>, Some \<lparr>bvalue = 16, position = (0, 3)\<rparr>],
              [None, None, None, None], [None, None, None, None],
              [None, None, None, None]]\<rparr>, \<lambda>_. 0))"
  using locked_move_is_atomic
    [of "\<lparr>size_g = 4,
      grid = [[Some \<lparr>bvalue = 2, position = (0, 0)\<rparr>, Some \<lparr>bvalue = 4, position = (0, 1)\<rparr>,
               Some \<lparr>bvalue = 8, position = (0, 2)\<rparr>, Some \<lparr>bvalue = 16, position = (0, 3)\<rparr>],
              [None, None, None, None], [None, None, None, None],
              [None, None, None, None]]\<rparr>" "''right''" "\<lambda>_. 0"]
  by (simp add: tile_values_def)

section \<open>Construction and spawning\<close>

text \<open>
  C7. For every size \<open>n\<close> of at least 2, constructing a grid of size \<open>n\<close> returns a
  well-formed grid with exactly 2 occupied slots, every tile on it of value 2 or 4, and
  \<open>n * n - 2\<close> empty slots.
\<close>

theorem new_grid_has_two_tiles:
  assumes "2 \<le> n"
  shows "\<exists>g r'. Grid_init n r = Inr (g, r') \<and> size_g g = n \<and> wf_grid g
           \<and> occupied_slots g = 2 \<and> list_all (\<lambda>b. bvalue b = 2 \<or> bvalue b = 4) (tiles g)
           \<and> int (empty_slots g) = n * n - 2"
proof -
  define g0 where "g0 = \<lparr>size_g = n, grid = map (\<lambda>_. map (\<lambda>_. None :: Block option) (range_py n)) (range_py n)\<rparr>"
  have wf0: "wf_grid g0"
    by (simp add: g0_def wf_grid_def wf_cells_def list_all_iff length_range_py)
  have none0: "set (concat (grid g0)) \<subseteq> {None}" by (auto simp: g0_def)
  then have occ0: "occupied_slots g0 = 0"
    by (auto simp: occupied_slots_def filter_empty_conv)
  have "filter (\<lambda>c. c = None) (concat (grid g0)) = concat (grid g0)"
    using none0 by (auto simp: filter_id_conv)
  then have "empty_slots g0 = nat n * nat n"
    using wf0 by (simp add: empty_slots_def wf_grid_def length_concat_wf g0_def)
  moreover have "4 \<le> nat n * nat n" using assms mult_le_mono [of 2 "nat n" 2 "nat n"] by simp
  ultimately have emp0: "empty_slots g0 = nat n * nat n" "4 \<le> empty_slots g0" by simp_all
  have t0: "set (tiles g0) = {}" using none0 by (auto simp: set_tiles)
  have pos0: "0 < empty_slots g0" using emp0(2) by linarith
  obtain g1 where s1: "spawn_new_tile g0 r = Inr (g1, \<lambda>k. r (Suc (Suc k)))" "one_tile_spawned g0 g1"
    using spawn_new_tile_spawns [OF wf0 empty_slots_pos [OF pos0], of r] by blast
  note e1 = one_tile_spawned_effect [OF wf0 s1(2)]
  have emp1: "0 < empty_slots g1" using e1(4) emp0 by simp
  obtain g2 where s2: "spawn_new_tile g1 (\<lambda>k. r (Suc (Suc k))) = Inr (g2, \<lambda>k. r (Suc (Suc (Suc (Suc k)))))"
      "one_tile_spawned g1 g2"
    using spawn_new_tile_spawns [OF e1(1) empty_slots_pos [OF emp1], of "\<lambda>k. r (Suc (Suc k))"] by blast
  note e2 = one_tile_spawned_effect [OF e1(1) s2(2)]
  have init: "Grid_init n r = Inr (g2, \<lambda>k. r (Suc (Suc (Suc (Suc k)))))"
    using s1(1) s2(1) by (simp add: Grid_init_def g0_def [symmetric])
  have size: "size_g g2 = n" using e1(2) e2(2) by (simp add: g0_def)
  have occ: "occupied_slots g2 = 2" using e1(3) e2(3) occ0 by simp
  have "Suc (Suc (empty_slots g2)) = nat n * nat n" using e1(4) e2(4) emp0 by simp
  then have "int (empty_slots g2) + 2 = int (nat n * nat n)" by linarith
  then have emp: "int (empty_slots g2) = n * n - 2" using assms by (simp add: nat_mult_distrib)
  obtain b1 b2 where b: "bvalue b1 = 2 \<or> bvalue b1 = 4" "set (tiles g1) \<subseteq> insert b1 (set (tiles g0))"
    "bvalue b2 = 2 \<or> bvalue b2 = 4" "set (tiles g2) \<subseteq> insert b2 (set (tiles g1))"
    using e1(6) e2(6) by blast
  then have "set (tiles g2) \<subseteq> {b1, b2}" using t0 by auto
  then have vals: "list_all (\<lambda>b. bvalue b = 2 \<or> bvalue b = 4) (tiles g2)"
    using b(1,3) by (auto simp: list_all_iff)
  show ?thesis using init size e2(1) occ vals emp by blast
qed

theorem new_grid_has_two_tiles_witness:
  "(2::int) \<le> 2 \<and>
   (\<exists>g r'. Grid_init 2 (\<lambda>_. 0) = Inr (g, r') \<and> size_g g = 2 \<and> wf_grid g
           \<and> occupied_slots g = 2 \<and> list_all (\<lambda>b. bvalue b = 2 \<or> bvalue b = 4) (tiles g)
           \<and> int (empty_slots g) = 2 * 2 - 2)"
  using new_grid_has_two_tiles [of 2 "\<lambda>_. 0"] by simp

text \<open>
  C8. On a well-formed grid with no empty slot, \<open>spawn_new_tile\<close> raises nothing and
  returns the grid and the random source as they were: no slot is written and no draw is
  taken.
\<close>

theorem spawn_on_full_grid_is_noop:
  "wf_grid g \<Longrightarrow> empty_slots g = 0 \<Longrightarrow> spawn_new_tile g r = Inr (g, r)"
  by (rule spawn_new_tile_full) (auto simp: empty_slots_def filter_empty_conv)

theorem spawn_on_full_grid_is_noop_witness:
  "wf_grid \<lparr>size_g = 2,
            grid = [[Some \<lparr>bvalue = 2, position = (0, 0)\<rparr>, Some \<lparr>bvalue = 4, position = (0, 1)\<rparr>],
                    [Some \<lparr>bvalue = 8, position = (1, 0)\<rparr>, Some \<lparr>bvalue = 2, position = (1, 1)\<rparr>]]\<rparr>
   \<and> empty_slots \<lparr>size_g = 2,
            grid = [[Some \<lparr>bvalue = 2, position = (0, 0)\<rparr>, Some \<lparr>bvalue = 4, position = (0, 1)\<rparr>],
                    [Some \<lparr>bvalue = 8, position = (1, 0)\<rparr>, Some \<lparr>bvalue = 2, position = (1, 1)\<rparr>]]\<rparr> = 0
   \<and> spawn_new_tile \<lparr>size_g = 2,
            grid = [[Some \<lparr>bvalue = 2, position = (0, 0)\<rparr>, Some \<lparr>bvalue = 4, position = (0, 1)\<rparr>],
                    [Some \<lparr>bvalue = 8, position = (1, 0)\<rparr>, Some \<lparr>bvalue = 2, position = (1, 1)\<rparr>]]\<rparr>
         (\<lambda>_. 0)
       = Inr (\<lparr>size_g = 2,
            grid = [[Some \<lparr>bvalue = 2, position = (0, 0)\<rparr>, Some \<lparr>bvalue = 4, position = (0, 1)\<rparr>],
                    [Some \<lparr>bvalue = 8, position = (1, 0)\<rparr>, Some \<lparr>bvalue = 2, position = (1, 1)\<rparr>]]\<rparr>,
              \<lambda>_. 0)"
  using spawn_on_full_grid_is_noop
    [of "\<lparr>size_g = 2,
            grid = [[Some \<lparr>bvalue = 2, position = (0, 0)\<rparr>, Some \<lparr>bvalue = 4, position = (0, 1)\<rparr>],
                    [Some \<lparr>bvalue = 8, position = (1, 0)\<rparr>, Some \<lparr>bvalue = 2, position = (1, 1)\<rparr>]]\<rparr>"
        "\<lambda>_. 0"]
  by (simp add: wf_grid_def wf_cells_def empty_slots_def)

section \<open>Moves on a single row\<close>

lemmas pass_defs = shift_and_merge_pass_def shift_and_merge_cell_def shift_and_merge_merge_def
  shift_and_merge_while.simps update_value_def

lemma shift_and_merge_after_pass:
  assumes "is_valid_move g direction = Inr True" "shift_and_merge_pass g direction = Some (Inr g1)"
    "wf_grid g1" "None \<in> set (concat (grid g1))"
  shows "\<exists>g2. one_tile_spawned g1 g2
           \<and> shift_and_merge g direction r = Some (Inr (True, g2, \<lambda>n. r (Suc (Suc n))))"
proof -
  obtain g2 where "spawn_new_tile g1 r = Inr (g2, \<lambda>n. r (Suc (Suc n)))" "one_tile_spawned g1 g2"
    using spawn_new_tile_spawns [OF assms(3,4), of r] by blast
  then show ?thesis using assms(1,2) by (auto simp: shift_and_merge_def)
qed

text \<open>
  C10. On every grid of size 4 whose row 0 holds 2, empty, 2, empty and whose other slots
  are empty, \<open>shift_and_merge\<close> to the right returns true; the two loops leave row 0 as
  empty, empty, empty, 4 and the other rows empty, and the grid returned is that grid
  with the one tile spawned at the end of the move.
\<close>

theorem move_right_merges_at_the_edge:
  assumes "size_g g = 4"
    and "tile_values g = [[Some 2, None, Some 2, None], [None, None, None, None],
                          [None, None, None, None], [None, None, None, None]]"
  shows "\<exists>g1 g2 r'. shift_and_merge_pass g ''right'' = Some (Inr g1)
           \<and> tile_values g1 = [[None, None, None, Some 4], [None, None, None, None],
                                [None, None, None, None], [None, None, None, None]]
           \<and> one_tile_spawned g1 g2
           \<and> shift_and_merge g ''right'' r = Some (Inr (True, g2, r'))"
proof -
  obtain w x y z where s: "grid g = [[w, x, y, z], [None, None, None, None],
                 [None, None, None, None], [None, None, None, None]]"
      "map_option bvalue w = Some 2" "map_option bvalue x = None"
      "map_option bvalue y = Some 2" "map_option bvalue z = None"
    using tile_values_grid4 [OF assms(2)] by blast
  then obtain b0 b2 where b: "w = Some b0" "bvalue b0 = 2" "x = None" "y = Some b2" "bvalue b2 = 2" "z = None"
    by auto
  define g1 where "g1 = g\<lparr>grid := [[None, None, None, Some (b2\<lparr>bvalue := 4\<rparr>)], [None, None, None, None],
                 [None, None, None, None], [None, None, None, None]]\<rparr>"
  have valid: "is_valid_move g ''right'' = Inr True"
    using s(1) b assms(1) by (simp add: eval_defs)
  have pass: "shift_and_merge_pass g ''right'' = Some (Inr g1)"
    using s(1) b assms(1) unfolding g1_def by (simp add: eval_defs pass_defs)
  have wf: "wf_grid g1" using assms(1) by (simp add: g1_def wf_grid_def wf_cells_def)
  have none: "None \<in> set (concat (grid g1))" by (simp add: g1_def)
  have tv: "tile_values g1 = [[None, None, None, Some 4], [None, None, None, None],
                                [None, None, None, None], [None, None, None, None]]"
    by (simp add: g1_def tile_values_def)
  from shift_and_merge_after_pass [OF valid pass wf none, of r] pass tv show ?thesis by blast
qed

theorem move_right_merges_at_the_edge_witness:
  "size_g
     \<lparr>size_g = 4,
      grid = [[Some \<lparr>bvalue = 2, position = (0, 0)\<rparr>, None,
               Some \<lparr>bvalue = 2, position = (0, 2)\<rparr>, None],
              [None, None, None, None], [None, None, None, None],
              [None, None, None, None]]\<rparr> = 4
   \<and> (\<exists>g1 g2 r'. shift_and_merge_pass
     \<lparr>size_g = 4,
      grid = [[Some \<lparr>bvalue = 2, position = (0, 0)\<rparr>, None,
               Some \<lparr>bvalue = 2, position = (0, 2)\<rparr>, None],
              [None, None, None, None], [None, None, None, None],
              [None, None, None, None]]\<rparr> ''right'' = Some (Inr g1)
      \<and> tile_values g1 = [[None, None, None, Some 4], [None, None, None, None],
                         [None, None, None, None], [None, None, None, None]]
      \<and> one_tile_spawned g1 g2
      \<and> shift_and_merge
     \<lparr>size_g = 4,
      grid = [[Some \<lparr>bvalue = 2, position = (0, 0)\<rparr>, None,
               Some \<lparr>bvalue = 2, position = (0, 2)\<rparr>, None],
              [None, None, None, None], [None, None, None, None],
              [None, None, None, None]]\<rparr> ''right'' (\<lambda>_. 0)
        = Some (Inr (True, g2, r')))"
  using move_right_merges_at_the_edge
    [of "\<lparr>size_g = 4,
      grid = [[Some \<lparr>bvalue = 2, position = (0, 0)\<rparr>, None,
               Some \<lparr>bvalue = 2, position = (0, 2)\<rparr>, None],
              [None, None, None, None], [None, None, None, None],
              [None, None, None, None]]\<rparr>" "\<lambda>_. 0"]
  by (simp add: tile_values_def)

text \<open>
  C1. Row 2, 2, 2, 2 moved to the left, as the code computes it: on every grid of size 4
  whose row 0 holds 2, 2, 2, 2 and whose other slots are empty, \<open>shift_and_merge\<close> to
  the left returns true and the two loops leave row 0 as 4, empty, 4, empty. The loops visit the columns from 3 down
  to 0, so the tile farthest from the left edge moves first: column 3 merges into column
  2, column 1 merges into column 0, and the 4 in column 2 is never moved again.
\<close>

theorem move_left_2222_leaves_a_gap:
  assumes "size_g g = 4"
    and "tile_values g = [[Some 2, Some 2, Some 2, Some 2], [None, None, None, None],
                          [None, None, None, None], [None, None, None, None]]"
  shows "\<exists>g1 g2 r'. shift_and_merge_pass g ''left'' = Some (Inr g1)
           \<and> tile_values g1 = [[Some 4, None, Some 4, None], [None, None, None, None],
                                [None, None, None, None], [None, None, None, None]]
           \<and> one_tile_spawned g1 g2
           \<and> shift_and_merge g ''left'' r = Some (Inr (True, g2, r'))"
proof -
  obtain w x y z where s: "grid g = [[w, x, y, z], [None, None, None, None],
                 [None, None, None, None], [None, None, None, None]]"
      "map_option bvalue w = Some 2" "map_option bvalue x = Some 2"
      "map_option bvalue y = Some 2" "map_option bvalue z = Some 2"
    using tile_values_grid4 [OF assms(2)] by blast
  then obtain b0 b1 b2 b3 where b: "w = Some b0" "bvalue b0 = 2" "x = Some b1" "bvalue b1 = 2"
      "y = Some b2" "bvalue b2 = 2" "z = Some b3" "bvalue b3 = 2"
    by auto
  define g1 where "g1 = g\<lparr>grid := [[Some (b0\<lparr>bvalue := 4\<rparr>), None, Some (b2\<lparr>bvalue := 4\<rparr>), None],
                 [None, None, None, None], [None, None, None, None], [None, None, None, None]]\<rparr>"
  have valid: "is_valid_move g ''left'' = Inr True"
    using s(1) b assms(1) by (simp add: eval_defs)
  have pass: "shift_and_merge_pass g ''left'' = Some (Inr g1)"
    using s(1) b assms(1) unfolding g1_def by (simp add: eval_defs pass_defs)
  have wf: "wf_grid g1" using assms(1) by (simp add: g1_def wf_grid_def wf_cells_def)
  have none: "None \<in> set (concat (grid g1))" by (simp add: g1_def)
  have tv: "tile_values g1 = [[Some 4, None, Some 4, None], [None, None, None, None],
                                [None, None, None, None], [None, None, None, None]]"
    by (simp add: g1_def tile_values_def)
  from shift_and_merge_after_pass [OF valid pass wf none, of r] pass tv show ?thesis by blast
qed

theorem move_left_2222_leaves_a_gap_witness:
  "size_g
     \<lparr>size_g = 4,
      grid = [[Some \<lparr>bvalue = 2, position = (0, 0)\<rparr>, Some \<lparr>bvalue = 2, position = (0, 1)\<rparr>,
               Some \<lparr>bvalue = 2, position = (0, 2)\<rparr>, Some \<lparr>bvalue = 2, position = (0, 3)\<rparr>],
              [None, None, None, None], [None, None, None, None],
              [None, None, None, None]]\<rparr> = 4
   \<and> (\<exists>g1 g2 r'. shift_and_merge_pass
     \<lparr>size_g = 4,
      grid = [[Some \<lparr>bvalue = 2, position = (0, 0)\<rparr>, Some \<lparr>bvalue = 2, position = (0, 1)\<rparr>,
               Some \<lparr>bvalue = 2, position = (0, 2)\<rparr>, Some \<lparr>bvalue = 2, position = (0, 3)\<rparr>],
              [None, None, None, None], [None, None, None, None],
              [None, None, None, None]]\<rparr> ''left'' = Some (Inr g1)
      \<and> tile_values g1 = [[Some 4, None, Some 4, None], [None, None, None, None],
                         [None, None, None, None], [None, None, None, None]]
      \<and> one_tile_spawned g1 g2
      \<and> shift_and_merge
     \<lparr>size_g = 4,
      grid = [[Some \<lparr>bvalue = 2, position = (0, 0)\<rparr>, Some \<lparr>bvalue = 2, position = (0, 1)\<rparr>,
               Some \<lparr>bvalue = 2, position = (0, 2)\<rparr>, Some \<lparr>bvalue = 2, position = (0, 3)\<rparr>],
              [None, None, None, None], [None, None, None, None],
              [None, None, None, None]]\<rparr> ''left'' (\<lambda>_. 0)
        = Some (Inr (True, g2, r')))"
  using move_left_2222_leaves_a_gap
    [of "\<lparr>size_g = 4,
      grid = [[Some \<lparr>bvalue = 2, position = (0, 0)\<rparr>, Some \<lparr>bvalue = 2, position = (0, 1)\<rparr>,
               Some \<lparr>bvalue = 2, position = (0, 2)\<rparr>, Some \<lparr>bvalue = 2, position = (0, 3)\<rparr>],
              [None, None, None, None], [None, None, None, None],
              [None, None, None, None]]\<rparr>" "\<lambda>_. 0"]
  by (simp add: tile_values_def)

text \<open>
  C2. Row 2, 2, 2, empty moved to the left, as the code computes it: on every grid of
  size 4 whose row 0 holds 2, 2, 2, empty and whose other slots are empty, \<open>shift_and_merge\<close> to the left returns true and
  the two loops leave row 0 as 2, 4, empty, empty: the pair farthest from the left edge
  is the one that merges.
\<close>

theorem move_left_2220_merges_the_far_pair:
  assumes "size_g g = 4"
    and "tile_values g = [[Some 2, Some 2, Some 2, None], [None, None, None, None],
                          [None, None, None, None], [None, None, None, None]]"
  shows "\<exists>g1 g2 r'. shift_and_merge_pass g ''left'' = Some (Inr g1)
           \<and> tile_values g1 = [[Some 2, Some 4, None, None], [None, None, None, None],
                                [None, None, None, None], [None, None, None, None]]
           \<and> one_tile_spawned g1 g2
           \<and> shift_and_merge g ''left'' r = Some (Inr (True, g2, r'))"
proof -
  obtain w x y z where s: "grid g = [[w, x, y, z], [None, None, None, None],
                 [None, None, None, None], [None, None, None, None]]"
      "map_option bvalue w = Some 2" "map_option bvalue x = Some 2"
      "map_option bvalue y = Some 2" "map_option bvalue z = None"
    using tile_values_grid4 [OF assms(2)] by blast
  then obtain b0 b1 b2 where b: "w = Some b0" "bvalue b0 = 2" "x = Some b1" "bvalue b1 = 2"
      "y = Some b2" "bvalue b2 = 2" "z = None"
    by auto
  define g1 where "g1 = g\<lparr>grid := [[Some b0, Some (b1\<lparr>bvalue := 4\<rparr>), None, None],
                 [None, None, None, None], [None, None, None, None], [None, None, None, None]]\<rparr>"
  have valid: "is_valid_move g ''left'' = Inr True"
    using s(1) b assms(1) by (simp add: eval_defs)
  have pass: "shift_and_merge_pass g ''left'' = Some (Inr g1)"
    using s(1) b assms(1) unfolding g1_def by (simp add: eval_defs pass_defs)
  have wf: "wf_grid g1" using assms(1) by (simp add: g1_def wf_grid_def wf_cells_def)
  have none: "None \<in> set (concat (grid g1))" by (simp add: g1_def)
  have tv: "tile_values g1 = [[Some 2, Some 4, None, None], [None, None, None, None],
                                [None, None, None, None], [None, None, None, None]]"
    using b by (simp add: g1_def tile_values_def)
  from shift_and_merge_after_pass [OF valid pass wf none, of r] pass tv show ?thesis by blast
qed

theorem move_left_2220_merges_the_far_pair_witness:
  "size_g
     \<lparr>size_g = 4,
      grid = [[Some \<lparr>bvalue = 2, position = (0, 0)\<rparr>, Some \<lparr>bvalue = 2, position = (0, 1)\<rparr>,
               Some \<lparr>bvalue = 2, position = (0, 2)\<rparr>, None],
              [None, None, None, None], [None, None, None, None],
              [None, None, None, None]]\<rparr> = 4
   \<and> (\<exists>g1 g2 r'. shift_and_merge_pass
     \<lparr>size_g = 4,
      grid = [[Some \<lparr>bvalue = 2, position = (0, 0)\<rparr>, Some \<lparr>bvalue = 2, position = (0, 1)\<rparr>,
               Some \<lparr>bvalue = 2, position = (0, 2)\<rparr>, None],
              [None, None, None, None], [None, None, None, None],
              [None, None, None, None]]\<rparr> ''left'' = Some (Inr g1)
      \<and> tile_values g1 = [[Some 2, Some 4, None, None], [None, None, None, None],
                         [None, None, None, None], [None, None, None, None]]
      \<and> one_tile_spawned g1 g2
      \<and> shift_and_merge
     \<lparr>size_g = 4,
      grid = [[Some \<lparr>bvalue = 2, position = (0, 0)\<rparr>, Some \<lparr>bvalue = 2, position = (0, 1)\<rparr>,
               Some \<lparr>bvalue = 2, position = (0, 2)\<rparr>, None],
              [None, None, None, None], [None, None, None, None],
              [None, None, None, None]]\<rparr> ''left'' (\<lambda>_. 0)
        = Some (Inr (True, g2, r')))"
  using move_left_2220_merges_the_far_pair
    [of "\<lparr>size_g = 4,
      grid = [[Some \<lparr>bvalue = 2, position = (0, 0)\<rparr>, Some \<lparr>bvalue = 2, position = (0, 1)\<rparr>,
               Some \<lparr>bvalue = 2, position = (0, 2)\<rparr>, None],
              [None, None, None, None], [None, None, None, None],
              [None, None, None, None]]\<rparr>" "\<lambda>_. 0"]
  by (simp add: tile_values_def)

section \<open>The controller's dispatch\<close>

lemma print_grid_not_invalid: "print_grid g \<noteq> [Print ''Invalid move'']"
  by (cases "grid g") (simp_all add: print_grid_def)

lemma GameController_init_moves:
  "GameController_init r = Inr (c, r') \<Longrightarrow>
   moves c = [''up'' \<mapsto> MoveUp, ''down'' \<mapsto> MoveDown, ''left'' \<mapsto> MoveLeft, ''right'' \<mapsto> MoveRight]"
  by (auto simp: GameController_init_def split: sum.splits)

text \<open>
  C9. A controller holds the four strategies under the keys up, down, left and right, as
  its constructor stores them. For every other direction string \<open>play_move\<close> prints
  \<open>Invalid move\<close> and returns the controller and the random source as they were. No
  known direction ever prints that line, and a known direction whose move is locked
  prints \<open>Move not possible!\<close> instead.
\<close>

theorem unknown_direction_is_rejected:
  assumes "moves c = [''up'' \<mapsto> MoveUp, ''down'' \<mapsto> MoveDown,
                      ''left'' \<mapsto> MoveLeft, ''right'' \<mapsto> MoveRight]"
    and "\<not> known_direction direction"
  shows "play_move c direction r = Some (Inr ([Print ''Invalid move''], c, r))
     \<and> (\<forall>d r0 out c' r'. known_direction d \<longrightarrow> play_move c d r0 = Some (Inr (out, c', r'))
           \<longrightarrow> out \<noteq> [Print ''Invalid move''])
     \<and> (\<forall>d r0. known_direction d \<longrightarrow> is_valid_move (controller_grid c) d = Inr False
           \<longrightarrow> play_move c d r0 = Some (Inr ([Print ''Move not possible!''], c, r0)))"
proof (intro conjI allI impI)
  show "play_move c direction r = Some (Inr ([Print ''Invalid move''], c, r))"
    using assms by (simp add: play_move_def known_direction_def)
next
  fix d r0 out c' r'
  assume k: "known_direction d" and p: "play_move c d r0 = Some (Inr (out, c', r'))"
  from k obtain s where s: "moves c d = Some s"
    using assms(1) by (auto simp: known_direction_def)
  show "out \<noteq> [Print ''Invalid move'']"
    using p s print_grid_not_invalid
    by (auto simp: play_move_def split: option.splits sum.splits bool.splits)
next
  fix d r0
  assume k: "known_direction d" and l: "is_valid_move (controller_grid c) d = Inr False"
  from k have "\<exists>s. moves c d = Some s \<and> move s (controller_grid c) r0 = shift_and_merge (controller_grid c) d r0"
    using assms(1) by (auto simp: known_direction_def)
  then show "play_move c d r0 = Some (Inr ([Print ''Move not possible!''], c, r0))"
    using l by (auto simp: play_move_def shift_and_merge_def)
qed

theorem unknown_direction_is_rejected_witness:
  "\<not> known_direction ''jump''
   \<and> play_move \<lparr>controller_grid = \<lparr>size_g = 1, grid = [[None]]\<rparr>,
                 moves = [''up'' \<mapsto> MoveUp, ''down'' \<mapsto> MoveDown,
                          ''left'' \<mapsto> MoveLeft, ''right'' \<mapsto> MoveRight]\<rparr> ''jump'' (\<lambda>_. 0)
     = Some (Inr ([Print ''Invalid move''],
           \<lparr>controller_grid = \<lparr>size_g = 1, grid = [[None]]\<rparr>,
                 moves = [''up'' \<mapsto> MoveUp, ''down'' \<mapsto> MoveDown,
                          ''left'' \<mapsto> MoveLeft, ''right'' \<mapsto> MoveRight]\<rparr>, \<lambda>_. 0))"
  using unknown_direction_is_rejected
    [of "\<lparr>controller_grid = \<lparr>size_g = 1, grid = [[None]]\<rparr>,
                 moves = [''up'' \<mapsto> MoveUp, ''down'' \<mapsto> MoveDown,
                          ''left'' \<mapsto> MoveLeft, ''right'' \<mapsto> MoveRight]\<rparr>" "''jump''" "\<lambda>_. 0"]
  by (simp add: known_direction_def)

section \<open>One step of the loops\<close>

lemma keeps_refl: "wf_grid g \<Longrightarrow> keeps g g"
  by (simp add: keeps_def)

lemma keeps_trans:
  assumes "keeps g g'" "keeps g' g''"
  shows "keeps g g''"
proof -
  have "position ` set (tiles g'') \<subseteq> position ` set (tiles g)"
    using assms unfolding keeps_def by (meson order_trans)
  then show ?thesis using assms by (simp add: keeps_def)
qed

lemma in_bounds_keeps: "keeps g g' \<Longrightarrow> in_bounds g' p = in_bounds g p"
  by (simp add: keeps_def in_bounds_def)

lemma set_cell_with_cell:
  "wf_grid g \<Longrightarrow> in_bounds g (i, j) \<Longrightarrow> set_cell (grid g) i j v = Inr (grid (with_cell g i j v))"
  by (simp add: wf_grid_set_cell with_cell_def)

lemma grid_update_with_cell: "g\<lparr>grid := grid (with_cell g i j v)\<rparr> = with_cell g i j v"
  by (simp add: with_cell_def)

lemma grid_update_with_cell2:
  "g\<lparr>grid := grid (with_cell (with_cell g a b u) i j v)\<rparr> = with_cell (with_cell g a b u) i j v"
  by (simp add: with_cell_def)

lemma set_tiles_with_cell:
  "set (tiles (with_cell g i j v)) \<subseteq> set (tiles g) \<union> set_option v"
  using set_concat_with_cell [of g i j v] by (auto simp: set_tiles)

text \<open>Moving the tile of slot \<open>(i, j)\<close> into the empty slot \<open>(a, b)\<close>.\<close>

lemma move_tile_keeps:
  assumes wf: "wf_grid g" and ij: "in_bounds g (i, j)" and ab: "in_bounds g (a, b)"
    and ne: "(a, b) \<noteq> (i, j)"
    and src: "grid g ! nat i ! nat j = Some t" and dst: "grid g ! nat a ! nat b = None"
  defines "g' \<equiv> with_cell (with_cell g a b (Some t)) i j None"
  shows "keeps g g'" "grid g' ! nat a ! nat b = Some t"
proof -
  let ?g1 = "with_cell g a b (Some t)"
  have wf1: "wf_grid ?g1" using wf by (rule wf_grid_with_cell)
  have ij1: "in_bounds ?g1 (i, j)" and ab1: "in_bounds ?g1 (a, b)"
    using ij ab by (simp_all add: in_bounds_with_cell)
  have c1: "grid ?g1 ! nat i ! nat j = Some t"
    using nth_with_cell [OF wf ab ij] ne src by auto
  have wf': "wf_grid g'" unfolding g'_def using wf1 by (rule wf_grid_with_cell)
  have sz: "size_g g' = size_g g" by (simp add: g'_def size_g_with_cell)
  have tot: "total_value g' = total_value g"
    unfolding g'_def total_value_cell_sum
    by (simp add: cell_sum_with_cell [OF wf1 ij1] cell_sum_with_cell [OF wf ab] c1 dst)
  have "Some t \<in> set (concat (grid g))" using wf_grid_cell_mem [OF wf ij] src by simp
  then have t: "t \<in> set (tiles g)" by (simp add: set_tiles)
  have "set (tiles g') \<subseteq> set (tiles g)"
    unfolding g'_def using set_tiles_with_cell [of ?g1 i j None] set_tiles_with_cell [of g a b "Some t"] t
    by auto
  then show "keeps g g'" using wf' sz tot by (auto simp: keeps_def)
  show "grid g' ! nat a ! nat b = Some t"
    unfolding g'_def using nth_with_cell [OF wf1 ij1 ab1] nth_with_cell [OF wf ab ab] ne by auto
qed

text \<open>Merging the tile of slot \<open>(i, j)\<close> into the equal tile of another slot \<open>(a, b)\<close>.\<close>

lemma merge_tile_keeps:
  assumes wf: "wf_grid g" and ij: "in_bounds g (i, j)" and ab: "in_bounds g (a, b)"
    and ne: "(a, b) \<noteq> (i, j)"
    and src: "grid g ! nat i ! nat j = Some t" and dst: "grid g ! nat a ! nat b = Some nb"
    and eq: "bvalue nb = bvalue t"
  defines "g' \<equiv> with_cell (with_cell g a b (Some (update_value nb))) i j None"
  shows "keeps g g'"
proof -
  let ?g1 = "with_cell g a b (Some (update_value nb))"
  have wf1: "wf_grid ?g1" using wf by (rule wf_grid_with_cell)
  have ij1: "in_bounds ?g1 (i, j)" using ij by (simp add: in_bounds_with_cell)
  have c1: "grid ?g1 ! nat i ! nat j = Some t"
    using nth_with_cell [OF wf ab ij] ne src by auto
  have wf': "wf_grid g'" unfolding g'_def using wf1 by (rule wf_grid_with_cell)
  have sz: "size_g g' = size_g g" by (simp add: g'_def size_g_with_cell)
  let ?f = "\<lambda>c. case c of None \<Rightarrow> 0 | Some b \<Rightarrow> bvalue b"
  have "cell_sum ?f g' = cell_sum ?f ?g1 - bvalue t"
    unfolding g'_def by (simp add: cell_sum_with_cell [OF wf1 ij1] c1)
  moreover have "cell_sum ?f ?g1 = cell_sum ?f g - bvalue nb + bvalue nb * 2"
    by (simp add: cell_sum_with_cell [OF wf ab] dst update_value_def)
  ultimately have tot: "total_value g' = total_value g"
    using eq by (simp add: total_value_cell_sum)
  have "Some nb \<in> set (concat (grid g))" using wf_grid_cell_mem [OF wf ab] dst by simp
  then have nb: "nb \<in> set (tiles g)" by (simp add: set_tiles)
  have "set (tiles g') \<subseteq> insert (update_value nb) (set (tiles g))"
    unfolding g'_def
    using set_tiles_with_cell [of ?g1 i j None] set_tiles_with_cell [of g a b "Some (update_value nb)"]
    by auto
  moreover have "position (update_value nb) = position nb" by (simp add: update_value_def)
  ultimately have "position ` set (tiles g') \<subseteq> position ` set (tiles g)" using nb by force
  then show "keeps g g'" using wf' sz tot by (auto simp: keeps_def)
qed

section \<open>The while loop ends in a known direction\<close>

lemma get_new_position_known:
  "known_direction d \<Longrightarrow> get_new_position i j d \<noteq> (i, j)"
  by (auto simp: known_direction_def get_new_position_def)

lemma get_new_position_unknown:
  "\<not> known_direction d \<Longrightarrow> get_new_position i j d = (i, j)"
  by (auto simp: known_direction_def get_new_position_def)

lemma steps_left_decreases:
  assumes "known_direction d" "in_bounds g (i, j)" "in_bounds g (get_new_position i j d)"
    "size_g g' = size_g g"
  shows "steps_left d g' (fst (get_new_position i j d)) (snd (get_new_position i j d))
           < steps_left d g i j"
  using assms
  by (auto simp: known_direction_def get_new_position_def steps_left_def in_bounds_def)

lemma shift_and_merge_while_stops:
  assumes "wf_grid g"
    and "\<not> in_bounds g (get_new_position i j d)
         \<or> grid g ! nat (fst (get_new_position i j d)) ! nat (snd (get_new_position i j d)) \<noteq> None"
  shows "shift_and_merge_while d g i j = Some (Inr (g, i, j))"
proof (cases "in_bounds g (get_new_position i j d)")
  case False
  then show ?thesis by (subst shift_and_merge_while.simps) simp
next
  case True
  then have "in_bounds g (fst (get_new_position i j d), snd (get_new_position i j d))" by simp
  from wf_grid_get_cell [OF assms(1) this] assms(2) True show ?thesis
    by (subst shift_and_merge_while.simps) (auto simp: Let_def)
qed

lemma shift_and_merge_while_step:
  assumes wf: "wf_grid g" and ij: "in_bounds g (i, j)"
    and new: "get_new_position i j d = (a, b)" and ab: "in_bounds g (a, b)"
    and dst: "grid g ! nat a ! nat b = None"
  shows "shift_and_merge_while d g i j
         = shift_and_merge_while d (with_cell (with_cell g a b (grid g ! nat i ! nat j)) i j None) a b"
proof -
  let ?g1 = "with_cell g a b (grid g ! nat i ! nat j)"
  have wf1: "wf_grid ?g1" using wf by (rule wf_grid_with_cell)
  have ij1: "in_bounds ?g1 (i, j)" using ij by (simp add: in_bounds_with_cell)
  show ?thesis
    by (subst shift_and_merge_while.simps)
      (simp add: new ab wf_grid_get_cell [OF wf ab] dst wf_grid_get_cell [OF wf ij]
        set_cell_with_cell [OF wf ab] set_cell_with_cell [OF wf1 ij1] grid_update_with_cell2)
qed

lemma shift_and_merge_while_known:
  assumes d: "known_direction d"
  shows "wf_grid g \<Longrightarrow> in_bounds g (i, j) \<Longrightarrow> grid g ! nat i ! nat j = Some t \<Longrightarrow>
     \<exists>g' i' j'. shift_and_merge_while d g i j = Some (Inr (g', i', j')) \<and> keeps g g'
        \<and> in_bounds g' (i', j') \<and> grid g' ! nat i' ! nat j' = Some t"
proof (induction "steps_left d g i j" arbitrary: g i j rule: less_induct)
  case less
  obtain a b where new: "get_new_position i j d = (a, b)" by (cases "get_new_position i j d")
  show ?case
  proof (cases "in_bounds g (a, b) \<and> grid g ! nat a ! nat b = None")
    case False
    then have "shift_and_merge_while d g i j = Some (Inr (g, i, j))"
      using shift_and_merge_while_stops [OF less.prems(1), of i j d] new by auto
    then show ?thesis using less.prems keeps_refl by blast
  next
    case True
    define g' where "g' = with_cell (with_cell g a b (Some t)) i j None"
    have ne: "(a, b) \<noteq> (i, j)" using get_new_position_known [OF d, of i j] new by simp
    have k: "keeps g g'" and c: "grid g' ! nat a ! nat b = Some t"
      unfolding g'_def
      using move_tile_keeps [OF less.prems(1,2) _ ne less.prems(3)] True by auto
    have step: "shift_and_merge_while d g i j = shift_and_merge_while d g' a b"
      using shift_and_merge_while_step [OF less.prems(1,2) new] True less.prems(3)
      by (simp add: g'_def)
    have "steps_left d g' a b < steps_left d g i j"
      using steps_left_decreases [OF d less.prems(2), of g'] new True k by (simp add: keeps_def)
    moreover have "wf_grid g'" "in_bounds g' (a, b)"
      using k True by (simp_all add: keeps_def in_bounds_def)
    ultimately obtain g'' i' j' where
      r: "shift_and_merge_while d g' a b = Some (Inr (g'', i', j'))" "keeps g' g''"
        "in_bounds g'' (i', j')" "grid g'' ! nat i' ! nat j' = Some t"
      using less.hyps [of g' a b] c by blast
    show ?thesis using step r keeps_trans [OF k r(2)] by auto
  qed
qed

section \<open>The two loops in a known direction\<close>

lemma in_bounds_int_nat:
  "in_bounds g (a, b) \<Longrightarrow> 0 \<le> a \<and> a < int (nat (size_g g)) \<and> 0 \<le> b \<and> b < int (nat (size_g g))"
  by (auto simp: in_bounds_def)

lemma shift_and_merge_merge_known:
  assumes d: "known_direction d" and wf: "wf_grid g"
    and m: "wf_cells (nat (size_g g)) merged"
    and ij: "in_bounds g (i, j)" and src: "grid g ! nat i ! nat j = Some t"
  shows "\<exists>g' merged'. shift_and_merge_merge d g merged i j = Inr (g', merged', i)
           \<and> keeps g g' \<and> wf_cells (nat (size_g g)) merged'"
proof -
  obtain a b where new: "get_new_position i j d = (a, b)" by (cases "get_new_position i j d")
  have ne: "(a, b) \<noteq> (i, j)" using get_new_position_known [OF d, of i j] new by simp
  have same: "keeps g g \<and> wf_cells (nat (size_g g)) merged" using wf m by (simp add: keeps_refl)
  show ?thesis
  proof (cases "in_bounds g (a, b)")
    case False
    then have "shift_and_merge_merge d g merged i j = Inr (g, merged, i)"
      by (simp add: shift_and_merge_merge_def new)
    then show ?thesis using same by blast
  next
    case ab: True
    note gab = wf_grid_get_cell [OF wf ab]
    note gij = wf_grid_get_cell [OF wf ij]
    from in_bounds_int_nat [OF ab]
    have mab: "get_cell merged a b = Inr (merged ! nat a ! nat b)"
      and sab: "set_cell merged a b True = Inr (merged[nat a := (merged ! nat a)[nat b := True]])"
      using get_cell_wf [OF m, of a b] set_cell_wf [OF m, of a b True] by simp_all
    show ?thesis
    proof (cases "grid g ! nat a ! nat b")
      case None
      then have "shift_and_merge_merge d g merged i j = Inr (g, merged, i)"
        by (simp add: shift_and_merge_merge_def new ab gab)
      then show ?thesis using same by blast
    next
      case (Some nb)
      show ?thesis
      proof (cases "bvalue nb = bvalue t \<and> \<not> merged ! nat a ! nat b")
        case False
        then have "shift_and_merge_merge d g merged i j = Inr (g, merged, i)"
          by (auto simp: shift_and_merge_merge_def Let_def new ab gab gij Some src mab)
        then show ?thesis using same by blast
      next
        case True
        let ?g1 = "with_cell g a b (Some (update_value nb))"
        let ?g' = "with_cell ?g1 i j None"
        have wf1: "wf_grid ?g1" using wf by (rule wf_grid_with_cell)
        have ij1: "in_bounds ?g1 (i, j)" using ij by (simp add: in_bounds_with_cell)
        have "shift_and_merge_merge d g merged i j
              = Inr (?g', merged[nat a := (merged ! nat a)[nat b := True]], i)"
          using True
          by (simp add: shift_and_merge_merge_def Let_def new ab gab gij Some src mab sab
              set_cell_with_cell [OF wf ab] set_cell_with_cell [OF wf1 ij1] grid_update_with_cell2)
        moreover have "keeps g ?g'"
          using merge_tile_keeps [OF wf ij ab ne src Some] True by simp
        moreover have "wf_cells (nat (size_g g)) (merged[nat a := (merged ! nat a)[nat b := True]])"
          using m by (rule wf_cells_update)
        ultimately show ?thesis by blast
      qed
    qed
  qed
qed

lemma shift_and_merge_cell_known:
  assumes d: "known_direction d" and wf: "wf_grid g"
    and m: "wf_cells (nat (size_g g)) merged"
    and ij: "in_bounds g (i, j)"
  shows "\<exists>g' merged' i'. shift_and_merge_cell d (g, merged, i) j = Some (Inr (g', merged', i'))
           \<and> keeps g g' \<and> wf_cells (nat (size_g g)) merged' \<and> 0 \<le> i' \<and> i' < size_g g"
proof (cases "grid g ! nat i ! nat j")
  case None
  then have "shift_and_merge_cell d (g, merged, i) j = Some (Inr (g, merged, i))"
    by (simp add: shift_and_merge_cell_def wf_grid_get_cell [OF wf ij])
  then show ?thesis using wf m ij by (auto simp: keeps_refl in_bounds_def)
next
  case (Some t)
  obtain g1 i1 j1 where w: "shift_and_merge_while d g i j = Some (Inr (g1, i1, j1))" "keeps g g1"
      "in_bounds g1 (i1, j1)" "grid g1 ! nat i1 ! nat j1 = Some t"
    using shift_and_merge_while_known [OF d wf ij Some] by blast
  have wf1: "wf_grid g1" and sz: "size_g g1 = size_g g" using w(2) by (simp_all add: keeps_def)
  obtain g' merged' where r: "shift_and_merge_merge d g1 merged i1 j1 = Inr (g', merged', i1)"
      "keeps g1 g'" "wf_cells (nat (size_g g1)) merged'"
    using shift_and_merge_merge_known [OF d wf1 _ w(3,4), of merged] m sz by auto
  have "shift_and_merge_cell d (g, merged, i) j = Some (Inr (g', merged', i1))"
    by (simp add: shift_and_merge_cell_def wf_grid_get_cell [OF wf ij] Some w(1) r(1))
  then show ?thesis using keeps_trans [OF w(2) r(2)] r(3) w(3) sz by (auto simp: in_bounds_def)
qed

lemma shift_and_merge_inner_known:
  assumes d: "known_direction d"
  shows "wf_grid g \<Longrightarrow> wf_cells (nat (size_g g)) merged \<Longrightarrow> 0 \<le> i \<Longrightarrow> i < size_g g \<Longrightarrow>
     set js \<subseteq> set (range_py (size_g g)) \<Longrightarrow>
     \<exists>g' merged' i'. shift_and_merge_inner d (g, merged, i) js = Some (Inr (g', merged', i'))
           \<and> keeps g g' \<and> wf_cells (nat (size_g g)) merged'"
proof (induction js arbitrary: g merged i)
  case Nil
  then show ?case by (simp add: keeps_refl)
next
  case (Cons j js)
  have ij: "in_bounds g (i, j)" using Cons.prems by (simp add: set_range_py in_bounds_def)
  obtain g1 m1 i1 where c: "shift_and_merge_cell d (g, merged, i) j = Some (Inr (g1, m1, i1))"
      "keeps g g1" "wf_cells (nat (size_g g)) m1" "0 \<le> i1" "i1 < size_g g"
    using shift_and_merge_cell_known [OF d Cons.prems(1,2) ij] by blast
  have wf1: "wf_grid g1" and sz: "size_g g1 = size_g g" using c(2) by (simp_all add: keeps_def)
  obtain g' merged' i' where r: "shift_and_merge_inner d (g1, m1, i1) js = Some (Inr (g', merged', i'))"
      "keeps g1 g'" "wf_cells (nat (size_g g1)) merged'"
    using Cons.IH [of g1 m1 i1] wf1 c(3,4,5) Cons.prems(5) sz by auto
  show ?case using c(1) r(1) keeps_trans [OF c(2) r(2)] r(3) sz by auto
qed

lemma shift_and_merge_outer_known:
  assumes d: "known_direction d"
  shows "wf_grid g \<Longrightarrow> wf_cells (nat (size_g g)) merged \<Longrightarrow>
     set is \<subseteq> set (range_py (size_g g)) \<Longrightarrow> set ro \<subseteq> set (range_py (size_g g)) \<Longrightarrow>
     \<exists>g' merged'. shift_and_merge_outer d ro (g, merged) is = Some (Inr (g', merged'))
           \<and> keeps g g'"
proof (induction "is" arbitrary: g merged)
  case Nil
  then show ?case by (simp add: keeps_refl)
next
  case (Cons i "is")
  have i: "0 \<le> i" "i < size_g g" using Cons.prems(3) by (simp_all add: set_range_py)
  obtain g1 m1 i1 where c: "shift_and_merge_inner d (g, merged, i) ro = Some (Inr (g1, m1, i1))"
      "keeps g g1" "wf_cells (nat (size_g g)) m1"
    using shift_and_merge_inner_known [OF d Cons.prems(1,2) i Cons.prems(4)] by blast
  have wf1: "wf_grid g1" and sz: "size_g g1 = size_g g" using c(2) by (simp_all add: keeps_def)
  obtain g' merged' where r: "shift_and_merge_outer d ro (g1, m1) is = Some (Inr (g', merged'))"
      "keeps g1 g'"
    using Cons.IH [of g1 m1] wf1 c(3) Cons.prems(3,4) sz by auto
  show ?case using c(1) r(1) keeps_trans [OF c(2) r(2)] by auto
qed

lemma shift_and_merge_pass_known:
  assumes d: "known_direction d" and wf: "wf_grid g"
  shows "\<exists>g'. shift_and_merge_pass g d = Some (Inr g') \<and> keeps g g'"
proof -
  let ?merged = "map (\<lambda>_. replicate (nat (size_g g)) False) (range_py (size_g g))"
  let ?ro = "if d \<in> set [''down'', ''right''] then range_py (size_g g) else rev (range_py (size_g g))"
  have m: "wf_cells (nat (size_g g)) ?merged"
    by (simp add: wf_cells_def list_all_iff length_range_py)
  have ro: "set ?ro \<subseteq> set (range_py (size_g g))" by simp
  obtain g' merged' where "shift_and_merge_outer d ?ro (g, ?merged) ?ro = Some (Inr (g', merged'))"
      "keeps g g'"
    using shift_and_merge_outer_known [OF d wf m ro ro] by blast
  then show ?thesis by (auto simp: shift_and_merge_pass_def Let_def)
qed

section \<open>Stored positions\<close>

lemma positions_consistent_iff:
  "positions_consistent g \<longleftrightarrow>
     (\<forall>a < length (grid g). \<forall>b < length (grid g ! a). \<forall>t.
        grid g ! a ! b = Some t \<longrightarrow> position t = (int a, int b))"
proof -
  have row: "row_consistent i row \<longleftrightarrow>
      (\<forall>b < length row. \<forall>t. row ! b = Some t \<longrightarrow> position t = (i, int b))" for i row
    by (auto simp: row_consistent_def list_all_length split: option.splits)
  show ?thesis
    by (simp add: positions_consistent_def list_all_length row)
qed

lemma positions_consistent_with_cell:
  assumes wf: "wf_grid g" and c: "positions_consistent g" and xy: "in_bounds g (x, y)"
  shows "positions_consistent (with_cell g x y (Some \<lparr>bvalue = v, position = (x, y)\<rparr>))"
  unfolding positions_consistent_iff
proof (intro allI impI)
  fix a b t
  let ?g' = "with_cell g x y (Some \<lparr>bvalue = v, position = (x, y)\<rparr>)"
  assume a: "a < length (grid ?g')" and b: "b < length (grid ?g' ! a)"
    and t: "grid ?g' ! a ! b = Some t"
  have wf': "wf_grid ?g'" using wf by (rule wf_grid_with_cell)
  have la: "a < nat (size_g g)" using a wf' by (simp add: wf_grid_def wf_cells_def size_g_with_cell)
  then have "length (grid ?g' ! a) = nat (size_g g)"
    using wf' by (simp add: wf_grid_def wf_cells_def list_all_length size_g_with_cell)
  then have lb: "b < nat (size_g g)" using b by simp
  have "int a < size_g g" "int b < size_g g" using la lb by linarith+
  then have ab: "in_bounds g (int a, int b)" by (simp add: in_bounds_def)
  have old: "a < length (grid g)" "b < length (grid g ! a)"
    using la lb wf by (simp_all add: wf_grid_def wf_cells_def list_all_length)
  from nth_with_cell [OF wf xy ab, of "Some \<lparr>bvalue = v, position = (x, y)\<rparr>"] t
  show "position t = (int a, int b)"
    using c old by (auto simp: positions_consistent_iff split: if_splits)
qed

lemma all_occupied: "None \<notin> set xs \<Longrightarrow> \<forall>c \<in> set xs. c \<noteq> None"
  by (rule ballI) (erule contrapos_nn, simp)

lemma empty_slots_zero: "None \<notin> set (concat (grid g)) \<Longrightarrow> empty_slots g = 0"
  using all_occupied [of "concat (grid g)"]
  by (simp only: empty_slots_def length_0_conv filter_empty_conv) simp

lemma spawn_new_tile_consistent:
  assumes wf: "wf_grid g" and c: "positions_consistent g"
  shows "\<exists>g' r'. spawn_new_tile g r = Inr (g', r') \<and> wf_grid g' \<and> size_g g' = size_g g
           \<and> positions_consistent g'"
proof (cases "None \<in> set (concat (grid g))")
  case True
  obtain g' where s: "spawn_new_tile g r = Inr (g', \<lambda>n. r (Suc (Suc n)))" "one_tile_spawned g g'"
    using spawn_new_tile_spawns [OF wf True, of r] by blast
  obtain x y v where h: "in_bounds g (x, y)" "g' = with_cell g x y (Some \<lparr>bvalue = v, position = (x, y)\<rparr>)"
    using one_tile_spawned_with_cell [OF wf s(2)] by blast
  show ?thesis
    using s(1) h wf c by (auto simp: wf_grid_with_cell size_g_with_cell positions_consistent_with_cell)
next
  case False
  then have "\<forall>c \<in> set (concat (grid g)). c \<noteq> None" by (rule all_occupied)
  then have "spawn_new_tile g r = Inr (g, r)" by (rule spawn_new_tile_full [OF wf])
  then show ?thesis using wf c by blast
qed

lemma Grid_init_consistent:
  "\<exists>g r'. Grid_init n r = Inr (g, r') \<and> wf_grid g \<and> size_g g = n \<and> positions_consistent g"
proof -
  define g0 where "g0 = \<lparr>size_g = n, grid = map (\<lambda>_. map (\<lambda>_. None :: Block option) (range_py n)) (range_py n)\<rparr>"
  have wf0: "wf_grid g0"
    by (simp add: g0_def wf_grid_def wf_cells_def list_all_iff length_range_py)
  have c0: "positions_consistent g0"
    by (simp add: positions_consistent_iff g0_def)
  obtain g1 r1 where s1: "spawn_new_tile g0 r = Inr (g1, r1)" "wf_grid g1" "size_g g1 = size_g g0"
      "positions_consistent g1"
    using spawn_new_tile_consistent [OF wf0 c0, of r] by blast
  obtain g2 r2 where s2: "spawn_new_tile g1 r1 = Inr (g2, r2)" "wf_grid g2" "size_g g2 = size_g g1"
      "positions_consistent g2"
    using spawn_new_tile_consistent [OF s1(2,4), of r1] by blast
  have "Grid_init n r = Inr (g2, r2)"
    using s1(1) s2(1) by (simp add: Grid_init_def g0_def [symmetric])
  moreover have "size_g g2 = n" using s1(3) s2(3) by (simp add: g0_def)
  ultimately show ?thesis using s2(2,4) by blast
qed

section \<open>The total of the board\<close>

text \<open>
  C4, at a concrete move. Row 0 holds 2, 2, empty, empty and the move is to the left: the
  one merge (of two tiles of value 2) leaves the total of the board at 4, not at 4 - 2,
  and with a spawned tile of value 2 the total after the move is 6, not the total before
  plus the merged pair, 4 + (2 + 2).
\<close>

theorem merge_keeps_the_total:
  "total_value
     \<lparr>size_g = 4, grid = [[Some \<lparr>bvalue = 2, position = (0, 0)\<rparr>,
                           Some \<lparr>bvalue = 2, position = (0, 1)\<rparr>, None, None],
                          [None, None, None, None], [None, None, None, None],
                          [None, None, None, None]]\<rparr> = 4
   \<and> shift_and_merge_pass
     \<lparr>size_g = 4, grid = [[Some \<lparr>bvalue = 2, position = (0, 0)\<rparr>,
                           Some \<lparr>bvalue = 2, position = (0, 1)\<rparr>, None, None],
                          [None, None, None, None], [None, None, None, None],
                          [None, None, None, None]]\<rparr> ''left''
     = Some (Inr
         \<lparr>size_g = 4, grid = [[Some \<lparr>bvalue = 4, position = (0, 0)\<rparr>, None, None, None],
                              [None, None, None, None], [None, None, None, None],
                              [None, None, None, None]]\<rparr>)
   \<and> total_value
         \<lparr>size_g = 4, grid = [[Some \<lparr>bvalue = 4, position = (0, 0)\<rparr>, None, None, None],
                              [None, None, None, None], [None, None, None, None],
                              [None, None, None, None]]\<rparr> \<noteq> 4 - 2
   \<and> shift_and_merge
     \<lparr>size_g = 4, grid = [[Some \<lparr>bvalue = 2, position = (0, 0)\<rparr>,
                           Some \<lparr>bvalue = 2, position = (0, 1)\<rparr>, None, None],
                          [None, None, None, None], [None, None, None, None],
                          [None, None, None, None]]\<rparr> ''left'' (\<lambda>_. 0)
     = Some (Inr (True,
         \<lparr>size_g = 4, grid = [[Some \<lparr>bvalue = 4, position = (0, 0)\<rparr>,
                               Some \<lparr>bvalue = 2, position = (0, 1)\<rparr>, None, None],
                              [None, None, None, None], [None, None, None, None],
                              [None, None, None, None]]\<rparr>, \<lambda>_. 0))
   \<and> total_value
         \<lparr>size_g = 4, grid = [[Some \<lparr>bvalue = 4, position = (0, 0)\<rparr>,
                               Some \<lparr>bvalue = 2, position = (0, 1)\<rparr>, None, None],
                              [None, None, None, None], [None, None, None, None],
                              [None, None, None, None]]\<rparr> \<noteq> 4 + (2 + 2)"
  by (simp add: total_value_def tiles_def shift_and_merge_def
      spawn_new_tile_def empty_positions_def choice_def create_block_def eval_defs pass_defs)

text \<open>
  C4, as the code has it. On a well-formed grid, a valid move in a known direction returns
  true; the two loops leave the total of the tile values as it was (a merge of two tiles
  of value V takes 2V off the board and puts 2V back), and the total after the move is
  the total before plus the value, 2 or 4, of the spawned tile, or the total before when
  the grid is full and nothing is spawned.
\<close>

theorem move_conserves_the_total:
  assumes "wf_grid g" "known_direction d" "is_valid_move g d = Inr True"
  shows "\<exists>g1 g2 r'. shift_and_merge_pass g d = Some (Inr g1) \<and> total_value g1 = total_value g
           \<and> shift_and_merge g d r = Some (Inr (True, g2, r'))
           \<and> ((g2 = g1 \<and> empty_slots g1 = 0)
                \<or> (one_tile_spawned g1 g2
                    \<and> (total_value g2 = total_value g + 2 \<or> total_value g2 = total_value g + 4)))"
proof -
  obtain g1 where p: "shift_and_merge_pass g d = Some (Inr g1)" "keeps g g1"
    using shift_and_merge_pass_known [OF assms(2,1)] by blast
  have wf1: "wf_grid g1" and tot: "total_value g1 = total_value g"
    using p(2) by (simp_all add: keeps_def)
  show ?thesis
  proof (cases "None \<in> set (concat (grid g1))")
    case True
    obtain g2 where s: "one_tile_spawned g1 g2"
        "shift_and_merge g d r = Some (Inr (True, g2, \<lambda>n. r (Suc (Suc n))))"
      using shift_and_merge_after_pass [OF assms(3) p(1) wf1 True, of r] by blast
    from one_tile_spawned_effect(5) [OF wf1 s(1)] tot
    have "total_value g2 = total_value g + 2 \<or> total_value g2 = total_value g + 4" by auto
    then show ?thesis using p(1) tot s by blast
  next
    case False
    then have e: "empty_slots g1 = 0" by (rule empty_slots_zero)
    have "\<forall>c \<in> set (concat (grid g1)). c \<noteq> None" using False by (rule all_occupied)
    then have "spawn_new_tile g1 r = Inr (g1, r)" by (rule spawn_new_tile_full [OF wf1])
    then have "shift_and_merge g d r = Some (Inr (True, g1, r))"
      using assms(3) p(1) by (simp add: shift_and_merge_def)
    then show ?thesis using p(1) tot e by blast
  qed
qed

theorem move_conserves_the_total_witness:
  "wf_grid \<lparr>size_g = 4, grid = [[Some \<lparr>bvalue = 2, position = (0, 0)\<rparr>,
                                  Some \<lparr>bvalue = 2, position = (0, 1)\<rparr>, None, None],
                                 [None, None, None, None], [None, None, None, None],
                                 [None, None, None, None]]\<rparr>
   \<and> known_direction ''left''
   \<and> is_valid_move \<lparr>size_g = 4, grid = [[Some \<lparr>bvalue = 2, position = (0, 0)\<rparr>,
                                  Some \<lparr>bvalue = 2, position = (0, 1)\<rparr>, None, None],
                                 [None, None, None, None], [None, None, None, None],
                                 [None, None, None, None]]\<rparr> ''left'' = Inr True
   \<and> (\<exists>g1 g2 r'. shift_and_merge_pass \<lparr>size_g = 4, grid = [[Some \<lparr>bvalue = 2, position = (0, 0)\<rparr>,
                                  Some \<lparr>bvalue = 2, position = (0, 1)\<rparr>, None, None],
                                 [None, None, None, None], [None, None, None, None],
                                 [None, None, None, None]]\<rparr> ''left'' = Some (Inr g1)
         \<and> total_value g1 = 4
         \<and> shift_and_merge \<lparr>size_g = 4, grid = [[Some \<lparr>bvalue = 2, position = (0, 0)\<rparr>,
                                  Some \<lparr>bvalue = 2, position = (0, 1)\<rparr>, None, None],
                                 [None, None, None, None], [None, None, None, None],
                                 [None, None, None, None]]\<rparr> ''left'' (\<lambda>_. 0) = Some (Inr (True, g2, r'))
         \<and> ((g2 = g1 \<and> empty_slots g1 = 0)
              \<or> (one_tile_spawned g1 g2 \<and> (total_value g2 = 4 + 2 \<or> total_value g2 = 4 + 4))))"
proof -
  let ?G = "\<lparr>size_g = 4, grid = [[Some \<lparr>bvalue = 2, position = (0, 0)\<rparr>,
                                  Some \<lparr>bvalue = 2, position = (0, 1)\<rparr>, None, None],
                                 [None, None, None, None], [None, None, None, None],
                                 [None, None, None, None]]\<rparr>"
  have h1: "wf_grid ?G" by (simp add: wf_grid_def wf_cells_def)
  have h2: "known_direction ''left''" by (simp add: known_direction_def)
  have h3: "is_valid_move ?G ''left'' = Inr True" by (simp add: eval_defs)
  have t: "total_value ?G = 4" by (simp add: total_value_def tiles_def)
  from move_conserves_the_total [OF h1 h2 h3, of "\<lambda>_. 0"] h1 h2 h3 t show ?thesis by simp
qed

section \<open>What a slide and a merge write\<close>

lemma nth_with_cell2:
  assumes wf: "wf_grid g" and ij: "in_bounds g (i, j)" and ab: "in_bounds g (a, b)"
    and xy: "in_bounds g (x, y)"
  shows "grid (with_cell (with_cell g a b u) i j v) ! nat x ! nat y
         = (if (x, y) = (i, j) then v else if (x, y) = (a, b) then u else grid g ! nat x ! nat y)"
proof -
  let ?g1 = "with_cell g a b u"
  have wf1: "wf_grid ?g1" using wf by (rule wf_grid_with_cell)
  have ij1: "in_bounds ?g1 (i, j)" and xy1: "in_bounds ?g1 (x, y)"
    using ij xy by (simp_all add: in_bounds_with_cell)
  show ?thesis using nth_with_cell [OF wf1 ij1 xy1] nth_with_cell [OF wf ab xy] by auto
qed

lemma shift_and_merge_while_moves:
  assumes d: "known_direction d"
  shows "wf_grid g \<Longrightarrow> in_bounds g (i, j) \<Longrightarrow> grid g ! nat i ! nat j = Some t \<Longrightarrow>
     \<exists>g' i' j'. shift_and_merge_while d g i j = Some (Inr (g', i', j'))
        \<and> wf_grid g' \<and> size_g g' = size_g g \<and> in_bounds g (i', j')
        \<and> (\<forall>x y. in_bounds g (x, y) \<longrightarrow>
              grid g' ! nat x ! nat y
                = (if (x, y) = (i', j') then Some t
                   else if (x, y) = (i, j) then None else grid g ! nat x ! nat y))"
proof (induction "steps_left d g i j" arbitrary: g i j rule: less_induct)
  case less
  obtain a b where new: "get_new_position i j d = (a, b)" by (cases "get_new_position i j d")
  show ?case
  proof (cases "in_bounds g (a, b) \<and> grid g ! nat a ! nat b = None")
    case False
    then have "shift_and_merge_while d g i j = Some (Inr (g, i, j))"
      using shift_and_merge_while_stops [OF less.prems(1), of i j d] new by auto
    then show ?thesis using less.prems by auto
  next
    case True
    define gm where "gm = with_cell (with_cell g a b (Some t)) i j None"
    have ne: "(a, b) \<noteq> (i, j)" using get_new_position_known [OF d, of i j] new by simp
    have k: "keeps g gm" and c: "grid gm ! nat a ! nat b = Some t"
      unfolding gm_def
      using move_tile_keeps [OF less.prems(1,2) _ ne less.prems(3)] True by auto
    have wfm: "wf_grid gm" and szm: "size_g gm = size_g g" using k by (simp_all add: keeps_def)
    have bm: "in_bounds gm p = in_bounds g p" for p using szm by (simp add: in_bounds_def)
    have cm: "grid gm ! nat x ! nat y
         = (if (x, y) = (i, j) then None else if (x, y) = (a, b) then Some t else grid g ! nat x ! nat y)"
      if "in_bounds g (x, y)" for x y
      unfolding gm_def using nth_with_cell2 [OF less.prems(1,2) _ that, of a b] True by simp
    have step: "shift_and_merge_while d g i j = shift_and_merge_while d gm a b"
      using shift_and_merge_while_step [OF less.prems(1,2) new] True less.prems(3)
      by (simp add: gm_def)
    have "steps_left d gm a b < steps_left d g i j"
      using steps_left_decreases [OF d less.prems(2), of gm] new True szm by simp
    moreover have "in_bounds gm (a, b)" using True bm by simp
    ultimately obtain g' i' j' where
      r: "shift_and_merge_while d gm a b = Some (Inr (g', i', j'))" "wf_grid g'"
        "size_g g' = size_g gm" "in_bounds gm (i', j')"
        "\<forall>x y. in_bounds gm (x, y) \<longrightarrow>
              grid g' ! nat x ! nat y
                = (if (x, y) = (i', j') then Some t
                   else if (x, y) = (a, b) then None else grid gm ! nat x ! nat y)"
      using less.hyps [of gm a b] wfm c by blast
    have "grid g' ! nat x ! nat y
                = (if (x, y) = (i', j') then Some t
                   else if (x, y) = (i, j) then None else grid g ! nat x ! nat y)"
      if xy: "in_bounds g (x, y)" for x y
    proof -
      have "grid g' ! nat x ! nat y
                = (if (x, y) = (i', j') then Some t
                   else if (x, y) = (a, b) then None else grid gm ! nat x ! nat y)"
        using r(5) xy bm by blast
      then show ?thesis using cm [OF xy] True ne by (auto split: if_splits)
    qed
    then show ?thesis using step r(1,2,3,4) szm bm by auto
  qed
qed

lemma shift_and_merge_merge_effect:
  assumes wf: "wf_grid g" and m: "wf_cells (nat (size_g g)) merged"
    and ij: "in_bounds g (i, j)" and src: "grid g ! nat i ! nat j = Some t"
  shows "\<exists>g' merged'. shift_and_merge_merge d g merged i j = Inr (g', merged', i)
           \<and> wf_grid g' \<and> size_g g' = size_g g
           \<and> (g' = g
               \<or> (\<exists>nb. in_bounds g (get_new_position i j d)
                     \<and> grid g ! nat (fst (get_new_position i j d)) ! nat (snd (get_new_position i j d))
                         = Some nb
                     \<and> bvalue nb = bvalue t
                     \<and> (\<forall>x y. in_bounds g (x, y) \<longrightarrow>
                           grid g' ! nat x ! nat y
                             = (if (x, y) = (i, j) then None
                                else if (x, y) = get_new_position i j d then Some (update_value nb)
                                else grid g ! nat x ! nat y))))"
proof -
  obtain a b where new: "get_new_position i j d = (a, b)" by (cases "get_new_position i j d")
  have same: "shift_and_merge_merge d g merged i j = Inr (g, merged, i) \<Longrightarrow> ?thesis"
    using wf by blast
  show ?thesis
  proof (cases "in_bounds g (a, b)")
    case False
    then have "shift_and_merge_merge d g merged i j = Inr (g, merged, i)"
      by (simp add: shift_and_merge_merge_def new)
    then show ?thesis by (rule same)
  next
    case ab: True
    note gab = wf_grid_get_cell [OF wf ab]
    note gij = wf_grid_get_cell [OF wf ij]
    from in_bounds_int_nat [OF ab]
    have mab: "get_cell merged a b = Inr (merged ! nat a ! nat b)"
      and sab: "set_cell merged a b True = Inr (merged[nat a := (merged ! nat a)[nat b := True]])"
      using get_cell_wf [OF m, of a b] set_cell_wf [OF m, of a b True] by simp_all
    show ?thesis
    proof (cases "grid g ! nat a ! nat b")
      case None
      then have "shift_and_merge_merge d g merged i j = Inr (g, merged, i)"
        by (simp add: shift_and_merge_merge_def new ab gab)
      then show ?thesis by (rule same)
    next
      case (Some nb)
      show ?thesis
      proof (cases "bvalue nb = bvalue t \<and> \<not> merged ! nat a ! nat b")
        case False
        then have "shift_and_merge_merge d g merged i j = Inr (g, merged, i)"
          by (auto simp: shift_and_merge_merge_def Let_def new ab gab gij Some src mab)
        then show ?thesis by (rule same)
      next
        case True
        let ?g1 = "with_cell g a b (Some (update_value nb))"
        let ?g' = "with_cell ?g1 i j None"
        have wf1: "wf_grid ?g1" using wf by (rule wf_grid_with_cell)
        have ij1: "in_bounds ?g1 (i, j)" using ij by (simp add: in_bounds_with_cell)
        have res: "shift_and_merge_merge d g merged i j
              = Inr (?g', merged[nat a := (merged ! nat a)[nat b := True]], i)"
          using True
          by (simp add: shift_and_merge_merge_def Let_def new ab gab gij Some src mab sab
              set_cell_with_cell [OF wf ab] set_cell_with_cell [OF wf1 ij1] grid_update_with_cell2)
        have wf': "wf_grid ?g'" using wf1 by (rule wf_grid_with_cell)
        have sz: "size_g ?g' = size_g g" by (simp add: size_g_with_cell)
        have cells: "\<forall>x y. in_bounds g (x, y) \<longrightarrow>
            grid ?g' ! nat x ! nat y
              = (if (x, y) = (i, j) then None
                 else if (x, y) = (a, b) then Some (update_value nb)
                 else grid g ! nat x ! nat y)"
          using nth_with_cell2 [OF wf ij ab] by simp
        show ?thesis
          using res wf' sz cells ab Some True unfolding new by (intro exI conjI disjI2) auto
      qed
    qed
  qed
qed

section \<open>Positions and slots\<close>

text \<open>
  C5, at a concrete move. A single tile in slot (0, 0), stored position (0, 0), is moved to
  the right: the grid returned holds it in slot (0, 3) with its stored position still
  (0, 0), so the grid is no longer position-consistent.
\<close>

theorem slide_keeps_the_old_position:
  "positions_consistent
     \<lparr>size_g = 4, grid = [[Some \<lparr>bvalue = 2, position = (0, 0)\<rparr>, None, None, None],
                          [None, None, None, None], [None, None, None, None],
                          [None, None, None, None]]\<rparr>
   \<and> shift_and_merge
     \<lparr>size_g = 4, grid = [[Some \<lparr>bvalue = 2, position = (0, 0)\<rparr>, None, None, None],
                          [None, None, None, None], [None, None, None, None],
                          [None, None, None, None]]\<rparr> ''right'' (\<lambda>_. 0)
     = Some (Inr (True,
         \<lparr>size_g = 4, grid = [[Some \<lparr>bvalue = 2, position = (0, 0)\<rparr>, None, None,
                               Some \<lparr>bvalue = 2, position = (0, 0)\<rparr>],
                              [None, None, None, None], [None, None, None, None],
                              [None, None, None, None]]\<rparr>, \<lambda>_. 0))
   \<and> \<not> positions_consistent
     \<lparr>size_g = 4, grid = [[Some \<lparr>bvalue = 2, position = (0, 0)\<rparr>, None, None,
                               Some \<lparr>bvalue = 2, position = (0, 0)\<rparr>],
                              [None, None, None, None], [None, None, None, None],
                              [None, None, None, None]]\<rparr>"
  by (simp add: positions_consistent_def row_consistent_def upt_rec shift_and_merge_def
      spawn_new_tile_def empty_positions_def choice_def create_block_def eval_defs pass_defs)

text \<open>
  C5, as the code has it. A constructed grid is position-consistent, and \<open>spawn_new_tile\<close>
  keeps a well-formed grid position-consistent; on every well-formed grid it either
  changes nothing or fills one empty slot with a new tile whose position is that slot.
  No step of \<open>shift_and_merge\<close> writes a position. \<open>update_value\<close> changes the value
  only. The \<open>while\<close> loop ends with the same tile, stored position included, in the slot
  it has slid to, with the slot it left empty and every other slot as it was. The merge
  either leaves the grid as it was or puts \<open>update_value\<close> of the target tile into the
  target slot, empties the source slot and leaves every other slot as it was. Every tile
  on the board after the two loops carries a position that a tile carried before them.
\<close>

theorem positions_are_written_at_creation_only:
  "(\<exists>g0 r'. Grid_init n r = Inr (g0, r') \<and> wf_grid g0 \<and> positions_consistent g0)
   \<and> (wf_grid g \<and> positions_consistent g \<longrightarrow>
        (\<exists>g' r'. spawn_new_tile g r = Inr (g', r') \<and> wf_grid g' \<and> positions_consistent g'))
   \<and> (wf_grid g \<longrightarrow>
        (\<exists>g' r'. spawn_new_tile g r = Inr (g', r') \<and> (g' = g \<or> one_tile_spawned g g')))
   \<and> position (update_value t) = position t
   \<and> (wf_grid g \<and> known_direction d \<and> in_bounds g (i, j) \<and> get_cell (grid g) i j = Inr (Some t) \<longrightarrow>
        (\<exists>g' i' j'. shift_and_merge_while d g i j = Some (Inr (g', i', j'))
           \<and> get_cell (grid g') i' j' = Inr (Some t)
           \<and> (\<forall>x y. in_bounds g (x, y) \<longrightarrow>
                 get_cell (grid g') x y
                   = (if (x, y) = (i', j') then Inr (Some t)
                      else if (x, y) = (i, j) then Inr None else get_cell (grid g) x y))))
   \<and> (wf_grid g \<and> wf_cells (nat (size_g g)) merged \<and> in_bounds g (i, j)
        \<and> get_cell (grid g) i j = Inr (Some t) \<longrightarrow>
        (\<exists>g' merged'. shift_and_merge_merge d g merged i j = Inr (g', merged', i)
           \<and> (g' = g
               \<or> (\<exists>nb. get_cell (grid g) (fst (get_new_position i j d)) (snd (get_new_position i j d))
                         = Inr (Some nb)
                     \<and> bvalue nb = bvalue t
                     \<and> (\<forall>x y. in_bounds g (x, y) \<longrightarrow>
                           get_cell (grid g') x y
                             = (if (x, y) = (i, j) then Inr None
                                else if (x, y) = get_new_position i j d
                                then Inr (Some (update_value nb))
                                else get_cell (grid g) x y))))))
   \<and> (wf_grid g \<and> known_direction d \<longrightarrow>
        (\<exists>g1. shift_and_merge_pass g d = Some (Inr g1) \<and> wf_grid g1
           \<and> position ` set (tiles g1) \<subseteq> position ` set (tiles g)))"
proof (intro conjI impI)
  show "\<exists>g0 r'. Grid_init n r = Inr (g0, r') \<and> wf_grid g0 \<and> positions_consistent g0"
    using Grid_init_consistent [of n r] by blast
next
  assume "wf_grid g \<and> positions_consistent g"
  then show "\<exists>g' r'. spawn_new_tile g r = Inr (g', r') \<and> wf_grid g' \<and> positions_consistent g'"
    using spawn_new_tile_consistent [of g r] by blast
next
  assume wf: "wf_grid g"
  show "\<exists>g' r'. spawn_new_tile g r = Inr (g', r') \<and> (g' = g \<or> one_tile_spawned g g')"
  proof (cases "None \<in> set (concat (grid g))")
    case True
    then show ?thesis using spawn_new_tile_spawns [OF wf, of r] by blast
  next
    case False
    then have "\<forall>c \<in> set (concat (grid g)). c \<noteq> None" by (rule all_occupied)
    then have "spawn_new_tile g r = Inr (g, r)" by (rule spawn_new_tile_full [OF wf])
    then show ?thesis by blast
  qed
next
  show "position (update_value t) = position t" by (simp add: update_value_def)
next
  assume a: "wf_grid g \<and> known_direction d \<and> in_bounds g (i, j) \<and> get_cell (grid g) i j = Inr (Some t)"
  then have wf: "wf_grid g" and c: "grid g ! nat i ! nat j = Some t"
    using wf_grid_get_cell [of g i j] by simp_all
  obtain g' i' j' where w: "shift_and_merge_while d g i j = Some (Inr (g', i', j'))" "wf_grid g'"
      "size_g g' = size_g g" "in_bounds g (i', j')"
      "\<forall>x y. in_bounds g (x, y) \<longrightarrow>
              grid g' ! nat x ! nat y
                = (if (x, y) = (i', j') then Some t
                   else if (x, y) = (i, j) then None else grid g ! nat x ! nat y)"
    using shift_and_merge_while_moves [of d g i j t] a c by blast
  have b': "in_bounds g' p = in_bounds g p" for p using w(3) by (simp add: in_bounds_def)
  have cells: "get_cell (grid g') x y
                   = (if (x, y) = (i', j') then Inr (Some t)
                      else if (x, y) = (i, j) then Inr None else get_cell (grid g) x y)"
    if xy: "in_bounds g (x, y)" for x y
    using w(5) xy wf_grid_get_cell [OF wf xy] wf_grid_get_cell [OF w(2), of x y] b' by auto
  then have "get_cell (grid g') i' j' = Inr (Some t)" using w(4) by simp
  then show "\<exists>g' i' j'. shift_and_merge_while d g i j = Some (Inr (g', i', j'))
           \<and> get_cell (grid g') i' j' = Inr (Some t)
           \<and> (\<forall>x y. in_bounds g (x, y) \<longrightarrow>
                 get_cell (grid g') x y
                   = (if (x, y) = (i', j') then Inr (Some t)
                      else if (x, y) = (i, j) then Inr None else get_cell (grid g) x y))"
    using w(1) cells by blast
next
  assume a: "wf_grid g \<and> wf_cells (nat (size_g g)) merged \<and> in_bounds g (i, j)
        \<and> get_cell (grid g) i j = Inr (Some t)"
  then have wf: "wf_grid g" and m: "wf_cells (nat (size_g g)) merged" and ij: "in_bounds g (i, j)"
    and c: "grid g ! nat i ! nat j = Some t"
    using wf_grid_get_cell [of g i j] by simp_all
  let ?new = "get_new_position i j d"
  obtain g' merged' where r: "shift_and_merge_merge d g merged i j = Inr (g', merged', i)"
      "wf_grid g'" "size_g g' = size_g g"
      "g' = g
        \<or> (\<exists>nb. in_bounds g ?new \<and> grid g ! nat (fst ?new) ! nat (snd ?new) = Some nb
              \<and> bvalue nb = bvalue t
              \<and> (\<forall>x y. in_bounds g (x, y) \<longrightarrow>
                    grid g' ! nat x ! nat y
                      = (if (x, y) = (i, j) then None
                         else if (x, y) = ?new then Some (update_value nb)
                         else grid g ! nat x ! nat y)))"
    using shift_and_merge_merge_effect [OF wf m ij c, of d] by blast
  have b': "in_bounds g' p = in_bounds g p" for p using r(3) by (simp add: in_bounds_def)
  have "g' = g
        \<or> (\<exists>nb. get_cell (grid g) (fst ?new) (snd ?new) = Inr (Some nb)
              \<and> bvalue nb = bvalue t
              \<and> (\<forall>x y. in_bounds g (x, y) \<longrightarrow>
                    get_cell (grid g') x y
                      = (if (x, y) = (i, j) then Inr None
                         else if (x, y) = ?new then Inr (Some (update_value nb))
                         else get_cell (grid g) x y)))"
  proof (cases "g' = g")
    case True
    then show ?thesis by simp
  next
    case False
    then obtain nb where e: "in_bounds g ?new" "grid g ! nat (fst ?new) ! nat (snd ?new) = Some nb"
        "bvalue nb = bvalue t"
        "\<forall>x y. in_bounds g (x, y) \<longrightarrow>
                    grid g' ! nat x ! nat y
                      = (if (x, y) = (i, j) then None
                         else if (x, y) = ?new then Some (update_value nb)
                         else grid g ! nat x ! nat y)"
      using r(4) by blast
    have "get_cell (grid g) (fst ?new) (snd ?new) = Inr (Some nb)"
      using wf_grid_get_cell [OF wf, of "fst ?new" "snd ?new"] e(1,2) by simp
    moreover have "get_cell (grid g') x y
                      = (if (x, y) = (i, j) then Inr None
                         else if (x, y) = ?new then Inr (Some (update_value nb))
                         else get_cell (grid g) x y)"
      if xy: "in_bounds g (x, y)" for x y
      using e(4) xy wf_grid_get_cell [OF wf xy] wf_grid_get_cell [OF r(2), of x y] b' by auto
    ultimately show ?thesis using e(3) by blast
  qed
  then show "\<exists>g' merged'. shift_and_merge_merge d g merged i j = Inr (g', merged', i)
           \<and> (g' = g
               \<or> (\<exists>nb. get_cell (grid g) (fst ?new) (snd ?new) = Inr (Some nb)
                     \<and> bvalue nb = bvalue t
                     \<and> (\<forall>x y. in_bounds g (x, y) \<longrightarrow>
                           get_cell (grid g') x y
                             = (if (x, y) = (i, j) then Inr None
                                else if (x, y) = ?new then Inr (Some (update_value nb))
                                else get_cell (grid g) x y))))"
    using r(1) by blast
next
  assume "wf_grid g \<and> known_direction d"
  then show "\<exists>g1. shift_and_merge_pass g d = Some (Inr g1) \<and> wf_grid g1
           \<and> position ` set (tiles g1) \<subseteq> position ` set (tiles g)"
    using shift_and_merge_pass_known [of d g] by (auto simp: keeps_def)
qed

theorem positions_are_written_at_creation_only_witness:
  "wf_grid \<lparr>size_g = 4, grid = [[Some \<lparr>bvalue = 2, position = (0, 0)\<rparr>,
                                  Some \<lparr>bvalue = 2, position = (0, 1)\<rparr>, None, None],
                                 [None, None, None, None], [None, None, None, None],
                                 [None, None, None, None]]\<rparr>
   \<and> positions_consistent \<lparr>size_g = 4, grid = [[Some \<lparr>bvalue = 2, position = (0, 0)\<rparr>,
                                  Some \<lparr>bvalue = 2, position = (0, 1)\<rparr>, None, None],
                                 [None, None, None, None], [None, None, None, None],
                                 [None, None, None, None]]\<rparr>
   \<and> known_direction ''left''
   \<and> in_bounds \<lparr>size_g = 4, grid = [[Some \<lparr>bvalue = 2, position = (0, 0)\<rparr>,
                                  Some \<lparr>bvalue = 2, position = (0, 1)\<rparr>, None, None],
                                 [None, None, None, None], [None, None, None, None],
                                 [None, None, None, None]]\<rparr> (0, 1)
   \<and> get_cell [[Some \<lparr>bvalue = 2, position = (0, 0)\<rparr>,
                  Some \<lparr>bvalue = 2, position = (0, 1)\<rparr>, None, None],
                 [None, None, None, None], [None, None, None, None],
                 [None, None, None, None]] 0 1 = Inr (Some \<lparr>bvalue = 2, position = (0, 1)\<rparr>)
   \<and> wf_cells 4 [[False, False, False, False], [False, False, False, False],
                  [False, False, False, False], [False, False, False, False]]
   \<and> (\<exists>g' r'. spawn_new_tile \<lparr>size_g = 4, grid = [[Some \<lparr>bvalue = 2, position = (0, 0)\<rparr>,
                                  Some \<lparr>bvalue = 2, position = (0, 1)\<rparr>, None, None],
                                 [None, None, None, None], [None, None, None, None],
                                 [None, None, None, None]]\<rparr> (\<lambda>_. 0) = Inr (g', r')
          \<and> wf_grid g' \<and> positions_consistent g')
   \<and> (\<exists>g' r'. spawn_new_tile \<lparr>size_g = 4, grid = [[Some \<lparr>bvalue = 2, position = (0, 0)\<rparr>,
                                  Some \<lparr>bvalue = 2, position = (0, 1)\<rparr>, None, None],
                                 [None, None, None, None], [None, None, None, None],
                                 [None, None, None, None]]\<rparr> (\<lambda>_. 0) = Inr (g', r')
          \<and> (g' = \<lparr>size_g = 4, grid = [[Some \<lparr>bvalue = 2, position = (0, 0)\<rparr>,
                                  Some \<lparr>bvalue = 2, position = (0, 1)\<rparr>, None, None],
                                 [None, None, None, None], [None, None, None, None],
                                 [None, None, None, None]]\<rparr>
               \<or> one_tile_spawned \<lparr>size_g = 4, grid = [[Some \<lparr>bvalue = 2, position = (0, 0)\<rparr>,
                                  Some \<lparr>bvalue = 2, position = (0, 1)\<rparr>, None, None],
                                 [None, None, None, None], [None, None, None, None],
                                 [None, None, None, None]]\<rparr> g'))
   \<and> (\<exists>g' i' j'. shift_and_merge_while ''left'' \<lparr>size_g = 4, grid = [[Some \<lparr>bvalue = 2, position = (0, 0)\<rparr>,
                                  Some \<lparr>bvalue = 2, position = (0, 1)\<rparr>, None, None],
                                 [None, None, None, None], [None, None, None, None],
                                 [None, None, None, None]]\<rparr> 0 1 = Some (Inr (g', i', j'))
          \<and> get_cell (grid g') i' j' = Inr (Some \<lparr>bvalue = 2, position = (0, 1)\<rparr>))
   \<and> (\<exists>g' merged'. shift_and_merge_merge ''left'' \<lparr>size_g = 4, grid = [[Some \<lparr>bvalue = 2, position = (0, 0)\<rparr>,
                                  Some \<lparr>bvalue = 2, position = (0, 1)\<rparr>, None, None],
                                 [None, None, None, None], [None, None, None, None],
                                 [None, None, None, None]]\<rparr>
              [[False, False, False, False], [False, False, False, False],
               [False, False, False, False], [False, False, False, False]] 0 1
            = Inr (g', merged', 0)
          \<and> get_cell (grid g') 0 0 = Inr (Some \<lparr>bvalue = 4, position = (0, 0)\<rparr>)
          \<and> get_cell (grid g') 0 1 = Inr None)
   \<and> (\<exists>g1. shift_and_merge_pass \<lparr>size_g = 4, grid = [[Some \<lparr>bvalue = 2, position = (0, 0)\<rparr>,
                                  Some \<lparr>bvalue = 2, position = (0, 1)\<rparr>, None, None],
                                 [None, None, None, None], [None, None, None, None],
                                 [None, None, None, None]]\<rparr> ''left'' = Some (Inr g1) \<and> wf_grid g1
          \<and> position ` set (tiles g1) \<subseteq> {(0, 0), (0, 1)})"
proof -
  let ?G = "\<lparr>size_g = 4, grid = [[Some \<lparr>bvalue = 2, position = (0, 0)\<rparr>,
                                  Some \<lparr>bvalue = 2, position = (0, 1)\<rparr>, None, None],
                                 [None, None, None, None], [None, None, None, None],
                                 [None, None, None, None]]\<rparr>"
  let ?M = "[[False, False, False, False], [False, False, False, False],
             [False, False, False, False], [False, False, False, False]]"
  let ?t = "\<lparr>bvalue = 2, position = (0, 1)\<rparr>"
  have h1: "wf_grid ?G" by (simp add: wf_grid_def wf_cells_def)
  have h2: "positions_consistent ?G"
    by (simp add: positions_consistent_def row_consistent_def upt_rec)
  have h3: "known_direction ''left''" by (simp add: known_direction_def)
  have h4: "in_bounds ?G (0, 1)" by (simp add: in_bounds_def)
  have h5: "get_cell (grid ?G) 0 1 = Inr (Some ?t)" by (simp add: get_cell_def py_index_def)
  have t: "position ` set (tiles ?G) = {(0, 0), (0, 1)}" by (simp add: tiles_def)
  note inst = positions_are_written_at_creation_only
    [where n = 2 and r = "\<lambda>_. 0" and g = ?G and d = "''left''" and i = 0 and j = 1
       and t = ?t and merged = ?M]
  note part2 = inst [THEN conjunct2, THEN conjunct1]
  note part3 = inst [THEN conjunct2, THEN conjunct2, THEN conjunct1]
  note part5 = inst [THEN conjunct2, THEN conjunct2, THEN conjunct2, THEN conjunct2, THEN conjunct1]
  note part7 = inst [THEN conjunct2, THEN conjunct2, THEN conjunct2, THEN conjunct2, THEN conjunct2,
    THEN conjunct2]
  have effect: "\<exists>g' r'. spawn_new_tile ?G (\<lambda>_. 0) = Inr (g', r')
      \<and> (g' = ?G \<or> one_tile_spawned ?G g')"
    by (rule mp [OF part3]) (rule h1)
  have spawn: "\<exists>g' r'. spawn_new_tile ?G (\<lambda>_. 0) = Inr (g', r') \<and> wf_grid g' \<and> positions_consistent g'"
    by (rule mp [OF part2]) (rule conjI [OF h1 h2])
  have "wf_grid ?G \<and> known_direction ''left'' \<and> in_bounds ?G (0, 1)
      \<and> get_cell (grid ?G) 0 1 = Inr (Some ?t)"
    by (intro conjI h1 h3 h4 h5)
  from mp [OF part5 this] obtain g' i' j' where
    "shift_and_merge_while ''left'' ?G 0 1 = Some (Inr (g', i', j'))"
    "get_cell (grid g') i' j' = Inr (Some ?t)"
    by (elim exE conjE)
  then have slide: "\<exists>g' i' j'. shift_and_merge_while ''left'' ?G 0 1 = Some (Inr (g', i', j'))
          \<and> get_cell (grid g') i' j' = Inr (Some ?t)"
    by (intro exI conjI)
  have "\<exists>g1. shift_and_merge_pass ?G ''left'' = Some (Inr g1) \<and> wf_grid g1
          \<and> position ` set (tiles g1) \<subseteq> position ` set (tiles ?G)"
    by (rule mp [OF part7]) (rule conjI [OF h1 h3])
  then have pass: "\<exists>g1. shift_and_merge_pass ?G ''left'' = Some (Inr g1) \<and> wf_grid g1
          \<and> position ` set (tiles g1) \<subseteq> {(0, 0), (0, 1)}"
    unfolding t .
  have mg: "shift_and_merge_merge ''left'' ?G ?M 0 1
      = Inr (?G\<lparr>grid := [[Some \<lparr>bvalue = 4, position = (0, 0)\<rparr>, None, None, None],
                                 [None, None, None, None], [None, None, None, None],
                                 [None, None, None, None]]\<rparr>, 
             [[True, False, False, False], [False, False, False, False],
               [False, False, False, False], [False, False, False, False]], 0)"
    by (simp add: shift_and_merge_merge_def eval_defs update_value_def)
  have merge: "\<exists>g' merged'. shift_and_merge_merge ''left'' ?G ?M 0 1 = Inr (g', merged', 0)
          \<and> get_cell (grid g') 0 0 = Inr (Some \<lparr>bvalue = 4, position = (0, 0)\<rparr>)
          \<and> get_cell (grid g') 0 1 = Inr None"
    unfolding mg by (simp add: get_cell_def py_index_def)
  have h5': "get_cell [[Some \<lparr>bvalue = 2, position = (0, 0)\<rparr>,
                  Some \<lparr>bvalue = 2, position = (0, 1)\<rparr>, None, None],
                 [None, None, None, None], [None, None, None, None],
                 [None, None, None, None]] 0 1 = Inr (Some ?t)"
    using h5 by simp
  have h6': "wf_cells 4 ?M" by (simp add: wf_cells_def)
  show ?thesis by (intro conjI h1 h2 h3 h4 h5' h6' spawn effect slide merge pass)
qed

section \<open>A direction that is none of the four\<close>

lemma cleared_empty: "wf_grid g \<Longrightarrow> cleared g {} g"
  by (simp add: cleared_def)

lemma cleared_trans:
  "cleared g S g' \<Longrightarrow> cleared g' T g'' \<Longrightarrow> cleared g (S \<union> T) g''"
  by (auto simp: cleared_def in_bounds_def)

lemma is_valid_move_cell_unknown:
  assumes "wf_grid g" "\<not> known_direction d" "in_bounds g (i, j)"
  shows "is_valid_move_cell g d i j = Inr (grid g ! nat i ! nat j \<noteq> None)"
  using assms wf_grid_get_cell [OF assms(1,3)]
  by (cases "grid g ! nat i ! nat j")
     (simp_all add: is_valid_move_cell_def get_new_position_unknown)

lemma is_valid_move_inner_unknown:
  assumes "wf_grid g" "\<not> known_direction d" "0 \<le> i" "i < size_g g"
  shows "set js \<subseteq> set (range_py (size_g g)) \<Longrightarrow>
     is_valid_move_inner g d i js = Inr (\<exists>j \<in> set js. grid g ! nat i ! nat j \<noteq> None)"
proof (induction js)
  case Nil
  then show ?case by simp
next
  case (Cons j js)
  have "in_bounds g (i, j)" using Cons.prems assms(3,4) by (simp add: set_range_py in_bounds_def)
  from is_valid_move_cell_unknown [OF assms(1,2) this] Cons show ?case
    by (cases "grid g ! nat i ! nat j = None") auto
qed

lemma is_valid_move_outer_unknown:
  assumes "wf_grid g" "\<not> known_direction d"
  shows "set is \<subseteq> set (range_py (size_g g)) \<Longrightarrow>
     is_valid_move_outer g d is
       = Inr (\<exists>i \<in> set is. \<exists>j \<in> set (range_py (size_g g)). grid g ! nat i ! nat j \<noteq> None)"
proof (induction "is")
  case Nil
  then show ?case by simp
next
  case (Cons i "is")
  have "0 \<le> i" "i < size_g g" using Cons.prems by (simp_all add: set_range_py)
  from is_valid_move_inner_unknown [OF assms this, of "range_py (size_g g)"] Cons show ?case
    by (cases "\<exists>j \<in> set (range_py (size_g g)). grid g ! nat i ! nat j \<noteq> None") auto
qed

lemma is_valid_move_unknown:
  assumes "wf_grid g" "\<not> known_direction d" "0 < occupied_slots g"
  shows "is_valid_move g d = Inr True"
proof -
  from assms(3) obtain c where "c \<in> set (concat (grid g))" "c \<noteq> None"
    by (auto simp: occupied_slots_def filter_empty_conv)
  then obtain i j where "in_bounds g (i, j)" "grid g ! nat i ! nat j \<noteq> None"
    using wf_grid_mem_cell [OF assms(1)] by blast
  then have "\<exists>i \<in> set (range_py (size_g g)). \<exists>j \<in> set (range_py (size_g g)).
      grid g ! nat i ! nat j \<noteq> None"
    by (auto simp: set_range_py in_bounds_def)
  then show ?thesis
    using is_valid_move_outer_unknown [OF assms(1,2), of "range_py (size_g g)"]
    by (simp add: is_valid_move_def)
qed

lemma nth_cells_update:
  assumes "wf_cells n xs" "i < n" "j < n" "a < n" "b < n"
  shows "xs[i := (xs ! i)[j := v]] ! a ! b = (if a = i \<and> b = j then v else xs ! a ! b)"
  using assms by (auto simp: wf_cells_def list_all_length nth_list_update)

lemma shift_and_merge_cell_unknown:
  assumes wf: "wf_grid g" and d: "\<not> known_direction d" and f: "flags_ok g merged"
    and ij: "in_bounds g (i, j)"
  shows "\<exists>g' merged'. shift_and_merge_cell d (g, merged, i) j = Some (Inr (g', merged', i))
           \<and> cleared g {(i, j)} g' \<and> flags_ok g' merged'"
proof (cases "grid g ! nat i ! nat j")
  case None
  then have "shift_and_merge_cell d (g, merged, i) j = Some (Inr (g, merged, i))"
    by (simp add: shift_and_merge_cell_def wf_grid_get_cell [OF wf ij])
  moreover have "cleared g {(i, j)} g" using wf None by (auto simp: cleared_def)
  ultimately show ?thesis using f by blast
next
  case (Some t)
  have new: "get_new_position i j d = (i, j)" using d by (rule get_new_position_unknown)
  have w: "shift_and_merge_while d g i j = Some (Inr (g, i, j))"
    using shift_and_merge_while_stops [OF wf, of i j d] new ij Some by simp
  have m: "wf_cells (nat (size_g g)) merged" using f by (simp add: flags_ok_def)
  have notm: "\<not> merged ! nat i ! nat j" using f ij Some by (auto simp: flags_ok_def)
  from in_bounds_int_nat [OF ij]
  have mij: "get_cell merged i j = Inr (merged ! nat i ! nat j)"
    and sij: "set_cell merged i j True = Inr (merged[nat i := (merged ! nat i)[nat j := True]])"
    using get_cell_wf [OF m, of i j] set_cell_wf [OF m, of i j True] by simp_all
  let ?g1 = "with_cell g i j (Some (update_value t))"
  let ?g' = "with_cell ?g1 i j None"
  let ?m' = "merged[nat i := (merged ! nat i)[nat j := True]]"
  have wf1: "wf_grid ?g1" using wf by (rule wf_grid_with_cell)
  have ij1: "in_bounds ?g1 (i, j)" using ij by (simp add: in_bounds_with_cell)
  have wf': "wf_grid ?g'" using wf1 by (rule wf_grid_with_cell)
  have mg: "shift_and_merge_merge d g merged i j = Inr (?g', ?m', i)"
    using notm
    by (simp add: shift_and_merge_merge_def Let_def new ij wf_grid_get_cell [OF wf ij] Some mij sij
        set_cell_with_cell [OF wf ij] set_cell_with_cell [OF wf1 ij1] grid_update_with_cell2)
  have res: "shift_and_merge_cell d (g, merged, i) j = Some (Inr (?g', ?m', i))"
    by (simp add: shift_and_merge_cell_def wf_grid_get_cell [OF wf ij] Some w mg)
  have cells: "grid ?g' ! nat a ! nat b = (if a = i \<and> b = j then None else grid g ! nat a ! nat b)"
    if ab: "in_bounds g (a, b)" for a b
  proof -
    have ab1: "in_bounds ?g1 (a, b)" using ab by (simp add: in_bounds_with_cell)
    show ?thesis using nth_with_cell [OF wf1 ij1 ab1] nth_with_cell [OF wf ij ab] by auto
  qed
  have cl: "cleared g {(i, j)} ?g'"
    using wf' cells by (simp add: cleared_def size_g_with_cell)
  have "wf_cells (nat (size_g g)) ?m'" using m by (rule wf_cells_update)
  moreover have "grid ?g' ! nat a ! nat b = None"
    if ab: "in_bounds g (a, b)" and fl: "?m' ! nat a ! nat b" for a b
  proof (cases "a = i \<and> b = j")
    case True
    then show ?thesis using cells [OF ab] by simp
  next
    case False
    have "nat a = nat i \<and> nat b = nat j \<longleftrightarrow> a = i \<and> b = j"
      using ab ij by (auto simp: in_bounds_def)
    then have "?m' ! nat a ! nat b = merged ! nat a ! nat b"
      using nth_cells_update [OF m, of "nat i" "nat j" "nat a" "nat b" True] ab ij False
      by (auto simp: in_bounds_def)
    then have "grid g ! nat a ! nat b = None" using fl f ab by (auto simp: flags_ok_def)
    then show ?thesis using cells [OF ab] by simp
  qed
  ultimately have "flags_ok ?g' ?m'"
    by (simp add: flags_ok_def size_g_with_cell in_bounds_with_cell)
  then show ?thesis using res cl by blast
qed

lemma cleared_wf: "cleared g S g' \<Longrightarrow> wf_grid g' \<and> size_g g' = size_g g"
  by (simp add: cleared_def)

lemma shift_and_merge_inner_unknown:
  assumes d: "\<not> known_direction d"
  shows "wf_grid g \<Longrightarrow> flags_ok g merged \<Longrightarrow> 0 \<le> i \<Longrightarrow> i < size_g g \<Longrightarrow>
     set js \<subseteq> set (range_py (size_g g)) \<Longrightarrow>
     \<exists>g' merged'. shift_and_merge_inner d (g, merged, i) js = Some (Inr (g', merged', i))
           \<and> cleared g ({i} \<times> set js) g' \<and> flags_ok g' merged'"
proof (induction js arbitrary: g merged)
  case Nil
  then show ?case by (simp add: cleared_empty)
next
  case (Cons j js)
  have ij: "in_bounds g (i, j)" using Cons.prems by (simp add: set_range_py in_bounds_def)
  obtain g1 m1 where c: "shift_and_merge_cell d (g, merged, i) j = Some (Inr (g1, m1, i))"
      "cleared g {(i, j)} g1" "flags_ok g1 m1"
    using shift_and_merge_cell_unknown [OF Cons.prems(1) d Cons.prems(2) ij] by blast
  have wf1: "wf_grid g1" and sz: "size_g g1 = size_g g" using cleared_wf [OF c(2)] by simp_all
  obtain g' merged' where r: "shift_and_merge_inner d (g1, m1, i) js = Some (Inr (g', merged', i))"
      "cleared g1 ({i} \<times> set js) g'" "flags_ok g' merged'"
    using Cons.IH [OF wf1 c(3)] Cons.prems(3,4,5) sz by auto
  have "{(i, j)} \<union> {i} \<times> set js = {i} \<times> set (j # js)" by auto
  then have "cleared g ({i} \<times> set (j # js)) g'" using cleared_trans [OF c(2) r(2)] by simp
  then show ?case using c(1) r(1,3) by auto
qed

lemma shift_and_merge_outer_unknown:
  assumes d: "\<not> known_direction d"
  shows "wf_grid g \<Longrightarrow> flags_ok g merged \<Longrightarrow>
     set is \<subseteq> set (range_py (size_g g)) \<Longrightarrow> set ro \<subseteq> set (range_py (size_g g)) \<Longrightarrow>
     \<exists>g' merged'. shift_and_merge_outer d ro (g, merged) is = Some (Inr (g', merged'))
           \<and> cleared g (set is \<times> set ro) g'"
proof (induction "is" arbitrary: g merged)
  case Nil
  then show ?case by (simp add: cleared_empty)
next
  case (Cons i "is")
  have i: "0 \<le> i" "i < size_g g" using Cons.prems(3) by (simp_all add: set_range_py)
  obtain g1 m1 where c: "shift_and_merge_inner d (g, merged, i) ro = Some (Inr (g1, m1, i))"
      "cleared g ({i} \<times> set ro) g1" "flags_ok g1 m1"
    using shift_and_merge_inner_unknown [OF d Cons.prems(1,2) i Cons.prems(4)] by blast
  have wf1: "wf_grid g1" and sz: "size_g g1 = size_g g" using cleared_wf [OF c(2)] by simp_all
  obtain g' merged' where r: "shift_and_merge_outer d ro (g1, m1) is = Some (Inr (g', merged'))"
      "cleared g1 (set is \<times> set ro) g'"
    using Cons.IH [OF wf1 c(3)] Cons.prems(3,4) sz by auto
  have "{i} \<times> set ro \<union> set is \<times> set ro = set (i # is) \<times> set ro" by auto
  then have "cleared g (set (i # is) \<times> set ro) g'" using cleared_trans [OF c(2) r(2)] by simp
  then show ?case using c(1) r(1) by auto
qed

lemma shift_and_merge_pass_unknown:
  assumes d: "\<not> known_direction d" and wf: "wf_grid g"
  shows "\<exists>g'. shift_and_merge_pass g d = Some (Inr g') \<and> wf_grid g' \<and> size_g g' = size_g g
           \<and> occupied_slots g' = 0"
proof -
  let ?merged = "map (\<lambda>_. replicate (nat (size_g g)) False) (range_py (size_g g))"
  let ?ro = "rev (range_py (size_g g))"
  have nd: "d \<notin> set [''down'', ''right'']" using d by (auto simp: known_direction_def)
  have m: "wf_cells (nat (size_g g)) ?merged"
    by (simp add: wf_cells_def list_all_iff length_range_py)
  have "\<not> ?merged ! nat a ! nat b" if "in_bounds g (a, b)" for a b
  proof -
    have "nat a < length (range_py (size_g g))" "nat b < nat (size_g g)"
      using that by (auto simp: length_range_py in_bounds_def)
    then show ?thesis by simp
  qed
  then have f: "flags_ok g ?merged" using m by (simp add: flags_ok_def)
  have ro: "set ?ro \<subseteq> set (range_py (size_g g))" by simp
  obtain g' merged' where o: "shift_and_merge_outer d ?ro (g, ?merged) ?ro = Some (Inr (g', merged'))"
      "cleared g (set ?ro \<times> set ?ro) g'"
    using shift_and_merge_outer_unknown [OF d wf f ro ro] by blast
  have p: "shift_and_merge_pass g d = Some (Inr g')"
    using o(1) nd by (simp add: shift_and_merge_pass_def Let_def)
  have wf': "wf_grid g'" and sz: "size_g g' = size_g g" using cleared_wf [OF o(2)] by simp_all
  have "c = None" if c: "c \<in> set (concat (grid g'))" for c
  proof -
    obtain a b where ab: "in_bounds g' (a, b)" "grid g' ! nat a ! nat b = c"
      using wf_grid_mem_cell [OF wf' c] by blast
    then have "in_bounds g (a, b)" using sz by (simp add: in_bounds_def)
    moreover from this have "(a, b) \<in> set ?ro \<times> set ?ro" by (simp add: set_range_py in_bounds_def)
    ultimately show ?thesis using o(2) ab(2) by (auto simp: cleared_def)
  qed
  then have "occupied_slots g' = 0" by (auto simp: occupied_slots_def filter_empty_conv)
  then show ?thesis using p wf' sz by blast
qed

lemma slots_sum: "occupied_slots g + empty_slots g = length (concat (grid g))"
  unfolding occupied_slots_def empty_slots_def
  using sum_length_filter_compl [of "\<lambda>c. c \<noteq> None" "concat (grid g)"] by simp

text \<open>
  C6. For a direction string that is none of up, down, left, right, \<open>get_new_position\<close>
  returns the position it is given. On a well-formed grid with at least one occupied
  slot, \<open>is_valid_move\<close> is then true, the two loops of \<open>shift_and_merge\<close> end with
  every slot empty, one tile is spawned on the emptied board, and true is returned.
\<close>

theorem unknown_direction_clears_the_board:
  assumes "wf_grid g" "\<not> known_direction d" "0 < occupied_slots g"
  shows "get_new_position i j d = (i, j)
     \<and> (\<exists>g1 g2 r'. is_valid_move g d = Inr True
           \<and> shift_and_merge_pass g d = Some (Inr g1) \<and> wf_grid g1 \<and> size_g g1 = size_g g
           \<and> occupied_slots g1 = 0
           \<and> one_tile_spawned g1 g2 \<and> occupied_slots g2 = 1
           \<and> shift_and_merge g d r = Some (Inr (True, g2, r')))"
proof -
  have v: "is_valid_move g d = Inr True" using assms by (rule is_valid_move_unknown)
  obtain g1 where p: "shift_and_merge_pass g d = Some (Inr g1)" "wf_grid g1"
      "size_g g1 = size_g g" "occupied_slots g1 = 0"
    using shift_and_merge_pass_unknown [OF assms(2,1)] by blast
  have pos: "0 < length (concat (grid g))" using assms(3) slots_sum [of g] by linarith
  have l: "length (concat (grid g)) = nat (size_g g) * nat (size_g g)"
    using assms(1) unfolding wf_grid_def by (rule length_concat_wf)
  have l1: "length (concat (grid g1)) = nat (size_g g1) * nat (size_g g1)"
    using p(2) unfolding wf_grid_def by (rule length_concat_wf)
  have "length (concat (grid g1)) = length (concat (grid g))" using l l1 p(3) by simp
  then have "0 < empty_slots g1" using pos p(4) slots_sum [of g1] by linarith
  then have none: "None \<in> set (concat (grid g1))" by (rule empty_slots_pos)
  obtain g2 where s: "one_tile_spawned g1 g2"
      "shift_and_merge g d r = Some (Inr (True, g2, \<lambda>n. r (Suc (Suc n))))"
    using shift_and_merge_after_pass [OF v p(1,2) none, of r] by blast
  have "occupied_slots g2 = 1" using one_tile_spawned_effect(3) [OF p(2) s(1)] p(4) by simp
  then show ?thesis using v p s get_new_position_unknown [OF assms(2)] by blast
qed

theorem unknown_direction_clears_the_board_witness:
  "wf_grid \<lparr>size_g = 2, grid = [[Some \<lparr>bvalue = 2, position = (0, 0)\<rparr>, None],
                                 [None, Some \<lparr>bvalue = 8, position = (1, 1)\<rparr>]]\<rparr>
   \<and> \<not> known_direction ''sideways''
   \<and> 0 < occupied_slots \<lparr>size_g = 2, grid = [[Some \<lparr>bvalue = 2, position = (0, 0)\<rparr>, None],
                                 [None, Some \<lparr>bvalue = 8, position = (1, 1)\<rparr>]]\<rparr>
   \<and> get_new_position 1 1 ''sideways'' = (1, 1)
   \<and> (\<exists>g1 g2 r'. is_valid_move \<lparr>size_g = 2, grid = [[Some \<lparr>bvalue = 2, position = (0, 0)\<rparr>, None],
                                 [None, Some \<lparr>bvalue = 8, position = (1, 1)\<rparr>]]\<rparr> ''sideways'' = Inr True
           \<and> shift_and_merge_pass \<lparr>size_g = 2, grid = [[Some \<lparr>bvalue = 2, position = (0, 0)\<rparr>, None],
                                 [None, Some \<lparr>bvalue = 8, position = (1, 1)\<rparr>]]\<rparr> ''sideways'' = Some (Inr g1)
           \<and> wf_grid g1 \<and> size_g g1 = 2
           \<and> occupied_slots g1 = 0
           \<and> one_tile_spawned g1 g2 \<and> occupied_slots g2 = 1
           \<and> shift_and_merge \<lparr>size_g = 2, grid = [[Some \<lparr>bvalue = 2, position = (0, 0)\<rparr>, None],
                                 [None, Some \<lparr>bvalue = 8, position = (1, 1)\<rparr>]]\<rparr> ''sideways'' (\<lambda>_. 0)
               = Some (Inr (True, g2, r')))"
proof -
  let ?G = "\<lparr>size_g = 2, grid = [[Some \<lparr>bvalue = 2, position = (0, 0)\<rparr>, None],
                                 [None, Some \<lparr>bvalue = 8, position = (1, 1)\<rparr>]]\<rparr>"
  have h1: "wf_grid ?G" by (simp add: wf_grid_def wf_cells_def)
  have h2: "\<not> known_direction ''sideways''" by (simp add: known_direction_def)
  have h3: "0 < occupied_slots ?G" by (simp add: occupied_slots_def)
  from unknown_direction_clears_the_board [OF h1 h2 h3, of 1 1 "\<lambda>_. 0"] h1 h2 h3
  show ?thesis by simp
qed

end
